theory Spec2Isabelle
  imports Complex_Main
begin

section \<open>Python values and the environment\<close>

text \<open>
  A Python \<^verbatim>\<open>str\<close> is a sequence of Unicode code points. The labels, statuses and
  messages of \<^verbatim>\<open>bot.py\<close> are Japanese, so a string is modelled as the list of its code
  points; an ASCII literal is written with \<open>ascii\<close>.
\<close>

type_synonym pystr = "nat list"

definition ascii :: "string \<Rightarrow> pystr" where
  "ascii s = map of_char s"

fun starts_with :: "'a list \<Rightarrow> 'a list \<Rightarrow> bool" where
  "starts_with [] hay = True"
| "starts_with (n # ns) [] = False"
| "starts_with (n # ns) (h # hs) = (n = h \<and> starts_with ns hs)"

text \<open>\<open>py_in needle hay\<close> is Python's \<^verbatim>\<open>needle in hay\<close> on strings.\<close>

fun py_in :: "'a list \<Rightarrow> 'a list \<Rightarrow> bool" where
  "py_in needle [] = (needle = [])"
| "py_in needle (h # hs) = (starts_with needle (h # hs) \<or> py_in needle hs)"

text \<open>\<^verbatim>\<open>str.lower()\<close>, on the ASCII letters (the only ones the tested words contain).\<close>

definition py_lower :: "pystr \<Rightarrow> pystr" where
  "py_lower s = map (\<lambda>c. if 65 \<le> c \<and> c \<le> 90 then c + 32 else c) s"

text \<open>Truthiness of an optional string: \<^verbatim>\<open>None\<close> and \<^verbatim>\<open>""\<close> are false.\<close>

definition truthy :: "pystr option \<Rightarrow> bool" where
  "truthy v = (case v of None \<Rightarrow> False | Some s \<Rightarrow> s \<noteq> [])"

text \<open>\<^verbatim>\<open>a or b\<close> on optional strings.\<close>

definition py_or :: "pystr option \<Rightarrow> pystr option \<Rightarrow> pystr option" where
  "py_or a b = (if truthy a then a else b)"

text \<open>\<^verbatim>\<open>d.get(key, default)\<close>, the key's value being \<open>None\<close> when the key is absent.\<close>

definition dict_get :: "'a option \<Rightarrow> 'a \<Rightarrow> 'a" where
  "dict_get v d = (case v of None \<Rightarrow> d | Some x \<Rightarrow> x)"

text \<open>\<^verbatim>\<open>str(n)\<close> for an integer.\<close>

function digits_of :: "nat \<Rightarrow> pystr" where
  "digits_of n = (if n < 10 then [48 + n] else digits_of (n div 10) @ [48 + n mod 10])"
  by pat_completeness auto
termination
  by (relation "measure id") auto

declare digits_of.simps [simp del]

definition str_int :: "int \<Rightarrow> pystr" where
  "str_int i = (if i < 0 then 45 # digits_of (nat (- i)) else digits_of (nat i))"

text \<open>
  The two kinds of exception the control flow distinguishes: \<^verbatim>\<open>StopIteration\<close>, raised
  by \<^verbatim>\<open>check_stop\<close>, and any other \<^verbatim>\<open>Exception\<close> with its message. \<^verbatim>\<open>StopIteration\<close> is
  a subclass of \<^verbatim>\<open>Exception\<close>: an \<^verbatim>\<open>except Exception\<close> clause catches both, unless an
  \<^verbatim>\<open>except StopIteration\<close> clause comes first.
\<close>

datatype exn = StopIteration | Exception pystr

text \<open>
  The browser, the stop predicate and the remote services are the environment. Each kind
  of interaction is a channel; the world counts the interactions made so far on each
  channel, and the environment answers the k-th interaction on a channel.
\<close>

datatype popup = Pop05 | Pop04

datatype channel =
    StopCheck
  | ExtractAction
  | CreateTask
  | TaskResult
  | CurrentUrl
  | PageSource
  | DriverGet
  | DriverRefresh
  | ExecuteScript
  | PopupLook popup
  | PopupClose
  | CaptchaCheck
  | LotteryStatus
  | LotteryEntry
  | LoginAttempt
  | LoginStatusMessage
  | OtpFetch
  | OtpEnter
  | OtpSubmit

type_synonym world = "channel \<Rightarrow> nat"

definition world0 :: world where
  "world0 = (\<lambda>c. 0)"

definition tick :: "channel \<Rightarrow> world \<Rightarrow> world" where
  "tick c w = w(c := Suc (w c))"

text \<open>
  \<^verbatim>\<open>check_stop\<close> (bot.py 61-64): raises when a stop predicate is set and answers false.
\<close>

definition check_stop :: "(nat \<Rightarrow> bool) option \<Rightarrow> world \<Rightarrow> (exn + unit) \<times> world" where
  "check_stop stop_check w =
     (case stop_check of
        None \<Rightarrow> (Inr (), w)
      | Some f \<Rightarrow> (if \<not> f (w StopCheck) then (Inl StopIteration, tick StopCheck w)
                  else (Inr (), tick StopCheck w)))"

text \<open>\<^verbatim>\<open>for _ in range(n): check_stop(); time.sleep(..)\<close>\<close>

fun check_stops :: "nat \<Rightarrow> (nat \<Rightarrow> bool) option \<Rightarrow> world \<Rightarrow> (exn + unit) \<times> world" where
  "check_stops 0 stop_check w = (Inr (), w)"
| "check_stops (Suc n) stop_check w =
     (case check_stop stop_check w of
        (Inl e, w') \<Rightarrow> (Inl e, w')
      | (Inr u, w') \<Rightarrow> check_stops n stop_check w')"

section \<open>The CAPTCHA solver: \<^verbatim>\<open>solve_recaptcha\<close> (bot.py 400-590)\<close>

text \<open>
  The values of the float literals \<^verbatim>\<open>0.3\<close>, \<^verbatim>\<open>0.7\<close> and \<^verbatim>\<open>0.9\<close>: a Python float is an
  IEEE double, a dyadic rational, and \<^verbatim>\<open>==\<close> on floats compares these values.
\<close>

definition float_0_3 :: rat where
  "float_0_3 = 5404319552844595 / 18014398509481984"

definition float_0_7 :: rat where
  "float_0_7 = 3152519739159347 / 4503599627370496"

definition float_0_9 :: rat where
  "float_0_9 = 8106479329266893 / 9007199254740992"

text \<open>The task description posted to \<^verbatim>\<open>createTask\<close> (its constant fields left out).\<close>

record task_payload =
  websiteURL :: pystr
  websiteKey :: pystr
  minScore :: rat
  pageAction :: "pystr option"

text \<open>
  What \<^verbatim>\<open>requests.post\<close> followed by \<^verbatim>\<open>.json()\<close> gives: a \<^verbatim>\<open>RequestException\<close>, a body
  that is not JSON (with \<^verbatim>\<open>response.text\<close>), or the parsed object.
\<close>

datatype 'a reply = RequestException pystr | InvalidJSON pystr | Json 'a

text \<open>The keys read from the two JSON objects; \<open>None\<close> is an absent key.\<close>

record create_reply =
  c_errorId :: "int option"
  c_errorCode :: "pystr option"
  c_errorDescription :: "pystr option"
  c_taskId :: "int option"
  c_repr :: pystr

record result_reply =
  r_status :: "pystr option"
  r_errorId :: "int option"
  r_errorCode :: "pystr option"
  r_errorDescription :: "pystr option"
  r_gRecaptchaResponse :: "pystr option"
  r_token :: "pystr option"
  r_repr :: pystr

record captcha_env =
  c_stop_check :: "(nat \<Rightarrow> bool) option"
  captcha_api_key :: "pystr option"
  extract_recaptcha_action :: "nat \<Rightarrow> pystr option"
  create_task :: "nat \<Rightarrow> task_payload \<Rightarrow> create_reply reply"
  task_result :: "nat \<Rightarrow> int \<Rightarrow> result_reply reply"

text \<open>How the polling loop (bot.py 510-576) ends.\<close>

datatype poll_exit = Solved pystr | PollRaised exn | PollBreak | PollExhausted

fun poll_results :: "nat \<Rightarrow> captcha_env \<Rightarrow> int \<Rightarrow> int \<Rightarrow> int \<Rightarrow> world \<Rightarrow> poll_exit \<times> world" where
  "poll_results 0 env task_id attempt max_retries w = (PollExhausted, w)"
| "poll_results (Suc n) env task_id attempt max_retries w =
     (case check_stop (c_stop_check env) w of
        (Inl e, w1) \<Rightarrow> (PollRaised e, w1)
      | (Inr u1, w1) \<Rightarrow>
     (case check_stop (c_stop_check env) w1 of
        (Inl e, w2) \<Rightarrow> (PollRaised e, w2)
      | (Inr u2, w2) \<Rightarrow>
     (case task_result env (w2 TaskResult) task_id of
        RequestException e \<Rightarrow> poll_results n env task_id attempt max_retries (tick TaskResult w2)
      | InvalidJSON t \<Rightarrow> poll_results n env task_id attempt max_retries (tick TaskResult w2)
      | Json r \<Rightarrow>
          (let w3 = tick TaskResult w2 in
           if r_status r = Some (ascii ''processing'') then
             poll_results n env task_id attempt max_retries w3
           else if r_status r = Some (ascii ''ready'') then
             (case py_or (r_gRecaptchaResponse r) (r_token r) of
                Some s \<Rightarrow>
                  (if s \<noteq> [] then (Solved s, w3)
                   else (PollRaised (Exception (ascii ''No solution token in response: '' @ r_repr r)), w3))
              | None \<Rightarrow>
                  (PollRaised (Exception (ascii ''No solution token in response: '' @ r_repr r)), w3))
           else if dict_get (r_errorId r) 0 \<noteq> 0 then
             (let error_description = dict_get (r_errorDescription r) (ascii ''Unknown error'') in
              if r_errorCode r = Some (ascii ''ERROR_CAPTCHA_UNSOLVABLE'') then
                (if attempt < max_retries then
                   (case check_stops 3 (c_stop_check env) w3 of
                      (Inl e, w4) \<Rightarrow> (PollRaised e, w4)
                    | (Inr u4, w4) \<Rightarrow> (PollBreak, w4))
                 else (PollRaised (Exception (ascii ''2captcha error: '' @ error_description)), w3))
              else
                (if attempt < max_retries then
                   (case check_stops 3 (c_stop_check env) w3 of
                      (Inl e, w4) \<Rightarrow> (PollRaised e, w4)
                    | (Inr u4, w4) \<Rightarrow> (PollBreak, w4))
                 else (PollRaised (Exception (ascii ''2captcha error: '' @ error_description)), w3)))
           else poll_results n env task_id attempt max_retries w3))))"

text \<open>
  How the body of the \<^verbatim>\<open>try\<close> of one attempt (bot.py 438-576) ends: with the token, with
  \<^verbatim>\<open>continue\<close> or the end of the body, or with an exception for the \<^verbatim>\<open>except\<close> clauses.
\<close>

datatype attempt_exit = Returned pystr | NextAttempt | AttemptRaised exn

definition retry_wait :: "captcha_env \<Rightarrow> world \<Rightarrow> attempt_exit \<times> world" where
  "retry_wait env w =
     (case check_stops 3 (c_stop_check env) w of
        (Inl e, w') \<Rightarrow> (AttemptRaised e, w')
      | (Inr u, w') \<Rightarrow> (NextAttempt, w'))"

definition solve_attempt :: "captcha_env \<Rightarrow> task_payload \<Rightarrow> int \<Rightarrow> int \<Rightarrow> world \<Rightarrow> attempt_exit \<times> world" where
  "solve_attempt env task attempt max_retries w =
     (case check_stop (c_stop_check env) w of
        (Inl e, w1) \<Rightarrow> (AttemptRaised e, w1)
      | (Inr u1, w1) \<Rightarrow>
     (case create_task env (w1 CreateTask) task of
        RequestException e \<Rightarrow>
          (if attempt < max_retries then retry_wait env (tick CreateTask w1)
           else (AttemptRaised (Exception (ascii ''Network error: '' @ e)), tick CreateTask w1))
      | InvalidJSON t \<Rightarrow>
          (AttemptRaised (Exception (ascii ''Invalid JSON response: '' @ take 200 t)), tick CreateTask w1)
      | Json response_data \<Rightarrow>
          (let w2 = tick CreateTask w1 in
           if dict_get (c_errorId response_data) 0 \<noteq> 0 then
             (let error_code = dict_get (c_errorCode response_data) (ascii ''UNKNOWN'');
                  error_msg = dict_get (c_errorDescription response_data)
                                (dict_get (c_errorCode response_data) (ascii ''Unknown error''))
              in if attempt < max_retries then retry_wait env w2
                 else (AttemptRaised (Exception (ascii ''2captcha error ('' @ error_code @ ascii ''): '' @ error_msg)), w2))
           else
             (case c_taskId response_data of
                None \<Rightarrow> (AttemptRaised (Exception (ascii ''No taskId in response: '' @ c_repr response_data)), w2)
              | Some task_id \<Rightarrow>
                  (if task_id = 0 then
                     (AttemptRaised (Exception (ascii ''No taskId in response: '' @ c_repr response_data)), w2)
                   else
                     (case poll_results 60 env task_id attempt max_retries w2 of
                        (Solved solution, w3) \<Rightarrow> (Returned solution, w3)
                      | (PollRaised e, w3) \<Rightarrow> (AttemptRaised e, w3)
                      | (PollBreak, w3) \<Rightarrow> (NextAttempt, w3)
                      | (PollExhausted, w3) \<Rightarrow>
                          (if attempt < max_retries then retry_wait env w3
                           else (AttemptRaised (Exception (ascii ''CAPTCHA timeout after all retries'')), w3))))))))"

text \<open>
  The \<^verbatim>\<open>for attempt in range(1, max_retries + 1)\<close> loop with the two \<^verbatim>\<open>except\<close> clauses
  (bot.py 437, 577-590). A stop observed in the retry wait of the second clause leaves the
  function.
\<close>

fun solve_attempts :: "captcha_env \<Rightarrow> task_payload \<Rightarrow> int \<Rightarrow> int list \<Rightarrow> world \<Rightarrow> (exn + pystr) \<times> world" where
  "solve_attempts env task max_retries [] w =
     (Inl (Exception (ascii ''CAPTCHA solving failed after all retries'')), w)"
| "solve_attempts env task max_retries (attempt # rest) w =
     (case solve_attempt env task attempt max_retries w of
        (Returned solution, w') \<Rightarrow> (Inr solution, w')
      | (NextAttempt, w') \<Rightarrow> solve_attempts env task max_retries rest w'
      | (AttemptRaised StopIteration, w') \<Rightarrow> (Inl StopIteration, w')
      | (AttemptRaised (Exception msg), w') \<Rightarrow>
          (if attempt < max_retries \<and>
              (py_in (ascii ''2captcha error'') msg \<or> py_in (ascii ''timeout'') (py_lower msg))
           then
             (case check_stops 3 (c_stop_check env) w' of
                (Inl e, w'') \<Rightarrow> (Inl e, w'')
              | (Inr u, w'') \<Rightarrow> solve_attempts env task max_retries rest w'')
           else (Inl (Exception msg), w')))"

text \<open>The coercion of \<^verbatim>\<open>min_score\<close> (bot.py 428-431).\<close>

definition ensure_min_score :: "rat \<Rightarrow> rat" where
  "ensure_min_score min_score =
     (if min_score \<notin> set [float_0_3, float_0_7, float_0_9] then float_0_9 else min_score)"

definition solve_recaptcha ::
  "captcha_env \<Rightarrow> pystr \<Rightarrow> pystr \<Rightarrow> bool \<Rightarrow> int \<Rightarrow> rat \<Rightarrow> pystr option \<Rightarrow> world \<Rightarrow> (exn + pystr) \<times> world" where
  "solve_recaptcha env site_key url driver max_retries min_score page_action w =
     (if \<not> truthy (captcha_api_key env) then
        (Inl (Exception (ascii ''CAPTCHA_API_KEY is not set. Please set it in your .env file.'')), w)
      else if site_key = [] \<or> length site_key < 20 then
        (Inl (Exception (ascii ''Invalid site key: '' @ site_key)), w)
      else
        (let (page_action1, w1) =
               (if driver \<and> \<not> truthy page_action
                then (extract_recaptcha_action env (w ExtractAction), tick ExtractAction w)
                else (page_action, w));
             min_score1 = ensure_min_score min_score;
             task = \<lparr> websiteURL = url, websiteKey = site_key, minScore = min_score1,
                      pageAction = (if truthy page_action1 then page_action1 else None) \<rparr>
         in solve_attempts env task max_retries [1..max_retries] w1))"

section \<open>The browser session\<close>

text \<open>A WebDriver call either raises (with the exception's message) or gives its value.\<close>

datatype 'a webdriver = Raises pystr | Gives 'a

text \<open>
  One look at an overlay: \<^verbatim>\<open>find_elements(By.ID, ..)\<close>, \<^verbatim>\<open>is_displayed()\<close> and the stripped
  text of its message element. \<open>NotShown\<close>: no such element, or not displayed.
  \<open>Shown None\<close>: displayed, but reading the message raises. \<open>LookRaises\<close>:
  \<^verbatim>\<open>find_elements\<close> or \<^verbatim>\<open>is_displayed\<close> raises.
\<close>

datatype overlay = NotShown | Shown "pystr option" | LookRaises

text \<open>
  What \<^verbatim>\<open>_process_lottery_entry\<close> (bot.py 2829-3122) hands to its caller: \<^verbatim>\<open>True\<close>,
  \<^verbatim>\<open>False\<close>, \<^verbatim>\<open>'reload_needed'\<close>, or a re-raised \<^verbatim>\<open>StopIteration\<close>. The function catches
  every other exception itself; \<open>EntryError\<close> stands for the caller's
  \<^verbatim>\<open>except Exception\<close> clause, which nothing in the function's body reaches.
\<close>

datatype entry_outcome = EntryTrue | EntryFalse | EntryReloadNeeded | EntryStop | EntryError pystr

text \<open>\<^verbatim>\<open>_attempt_login_with_captcha\<close> (bot.py 757-1106): a pair, or a re-raised stop.\<close>

datatype login_outcome = LoginTuple bool bool | LoginStop

text \<open>\<^verbatim>\<open>get_otp_from_gmail\<close> (bot.py 592-673).\<close>

datatype otp_outcome = OtpCode pystr | OtpStop | OtpError pystr

text \<open>
  The environment of the browser flow. The functions of \<^verbatim>\<open>bot.py\<close> that only report on
  the page and never raise (\<^verbatim>\<open>_check_lottery_status\<close>, \<^verbatim>\<open>check_login_status_message\<close>,
  \<^verbatim>\<open>_check_and_solve_captcha_on_apply_page\<close>, each ending in \<^verbatim>\<open>except Exception: return\<close>)
  are answered by the environment, as are the page-driving functions above.
\<close>

record browser_env =
  stop_check :: "(nat \<Rightarrow> bool) option"
  email :: "pystr option"
  current_url :: "nat \<Rightarrow> pystr webdriver"
  page_source :: "nat \<Rightarrow> pystr webdriver"
  driver_get :: "nat \<Rightarrow> unit webdriver"
  driver_refresh :: "nat \<Rightarrow> unit webdriver"
  execute_script :: "nat \<Rightarrow> unit webdriver"
  popup_look :: "popup \<Rightarrow> nat \<Rightarrow> overlay"
  popup_close :: "nat \<Rightarrow> bool"
  check_and_solve_captcha_on_apply_page :: "nat \<Rightarrow> bool"
  check_lottery_status :: "nat \<Rightarrow> int \<Rightarrow> pystr option \<times> bool"
  process_lottery_entry :: "nat \<Rightarrow> int \<Rightarrow> entry_outcome"
  attempt_login_with_captcha :: "nat \<Rightarrow> login_outcome"
  check_login_status_message :: "nat \<Rightarrow> pystr option \<times> bool"
  get_otp_from_gmail :: "nat \<Rightarrow> otp_outcome"
  otp_enter :: "nat \<Rightarrow> bool"
  otp_submit :: "nat \<Rightarrow> bool"

definition apply_html :: pystr where
  "apply_html = ascii ''apply.html''"

text \<open>The message texts of the two overlay classes (bot.py 2486-2487).\<close>

definition exception_text :: "popup \<Rightarrow> pystr" where
  "exception_text p =
     (case p of
        Pop04 \<Rightarrow> [0x610f, 0x56f3, 0x3057, 0x306a, 0x3044, 0x4f8b, 0x5916, 0x304c, 0x767a,
                  0x751f, 0x3057, 0x307e, 0x3057, 0x305f, 0x3002]
      | Pop05 \<Rightarrow> [0x4e00, 0x5b9a, 0x6642, 0x9593, 0x64cd, 0x4f5c, 0x3057, 0x3066, 0x3044,
                  0x306a, 0x304b, 0x3063, 0x305f, 0x305f, 0x3081, 0x3001, 0x4f, 0x4b, 0x30dc,
                  0x30bf, 0x30f3, 0x30bf, 0x30c3, 0x30d7, 0x3057, 0x3066, 0x518d, 0x5ea6,
                  0x958b, 0x3051, 0x3066, 0x304f, 0x3060, 0x3055, 0x3044, 0x3002])"

text \<open>
  An attempt to dismiss an overlay through its close control, inside
  \<^verbatim>\<open>try: .. except: pass\<close>: it may fail, and nothing depends on it.
\<close>

definition close_popup :: "browser_env \<Rightarrow> world \<Rightarrow> bool \<times> world" where
  "close_popup env w = (popup_close env (w PopupClose), tick PopupClose w)"

section \<open>The popup recovery handler: \<^verbatim>\<open>_check_and_handle_pop_exceptions\<close> (bot.py 2483-2827)\<close>

text \<open>
  The cascade of reload mechanisms of one reload attempt (bot.py 2519-2553 and 2686-2720).
  Each mechanism is followed by \<^verbatim>\<open>check_stop()\<close> and five more in the wait loop, all inside
  the \<^verbatim>\<open>try\<close>: a stop observed there is caught by \<^verbatim>\<open>except Exception\<close> like a failure
  of the mechanism.
\<close>

definition reload_via_script :: "browser_env \<Rightarrow> world \<Rightarrow> bool \<times> world" where
  "reload_via_script env w =
     (case execute_script env (w ExecuteScript) of
        Raises m \<Rightarrow> (False, tick ExecuteScript w)
      | Gives u \<Rightarrow>
          (case check_stops 6 (stop_check env) (tick ExecuteScript w) of
             (Inl e, w1) \<Rightarrow> (False, w1)
           | (Inr u1, w1) \<Rightarrow> (True, w1)))"

definition reload_via_get :: "browser_env \<Rightarrow> world \<Rightarrow> bool \<times> world" where
  "reload_via_get env w =
     (case current_url env (w CurrentUrl) of
        Raises m \<Rightarrow> reload_via_script env (tick CurrentUrl w)
      | Gives url \<Rightarrow>
          (case driver_get env (tick CurrentUrl w DriverGet) of
             Raises m \<Rightarrow> reload_via_script env (tick DriverGet (tick CurrentUrl w))
           | Gives u \<Rightarrow>
               (case check_stops 6 (stop_check env) (tick DriverGet (tick CurrentUrl w)) of
                  (Inl e, w1) \<Rightarrow> reload_via_script env w1
                | (Inr u1, w1) \<Rightarrow> (True, w1))))"

definition reload_page :: "browser_env \<Rightarrow> world \<Rightarrow> bool \<times> world" where
  "reload_page env w =
     (case driver_refresh env (w DriverRefresh) of
        Raises m \<Rightarrow> reload_via_get env (tick DriverRefresh w)
      | Gives u \<Rightarrow>
          (case check_stops 6 (stop_check env) (tick DriverRefresh w) of
             (Inl e, w1) \<Rightarrow> reload_via_get env w1
           | (Inr u1, w1) \<Rightarrow> (True, w1)))"

text \<open>
  The reload loop for one overlay (bot.py 2508-2631 for pop05, 2675-2798 for pop04; the
  two differ in sleep times only). \<open>Some b\<close>: the handler returns \<open>b\<close>. \<open>None\<close>:
  the \<^verbatim>\<open>while\<close> condition failed. An exception that reaches the enclosing
  \<^verbatim>\<open>except Exception\<close> (bot.py 2644, 2811), a stop included, makes the handler try to
  close the overlay and return \<^verbatim>\<open>False\<close>.
\<close>

function reload_until_cleared ::
  "browser_env \<Rightarrow> popup \<Rightarrow> int \<Rightarrow> int \<Rightarrow> world \<Rightarrow> bool option \<times> world" where
  "reload_until_cleared env p max_reload_attempts reload_attempt w =
     (if reload_attempt < max_reload_attempts then
        (case check_stop (stop_check env) w of
           (Inl e, w1) \<Rightarrow> (Some False, snd (close_popup env w1))
         | (Inr u1, w1) \<Rightarrow>
        (case current_url env (w1 CurrentUrl) of
           Raises m \<Rightarrow> (Some False, snd (close_popup env (tick CurrentUrl w1)))
         | Gives current_url_before \<Rightarrow>
        (case reload_page env (tick CurrentUrl w1) of
           (True, w3) \<Rightarrow>
             (case check_stop (stop_check env) w3 of
                (Inl e, w4) \<Rightarrow> (Some False, snd (close_popup env w4))
              | (Inr u4, w4) \<Rightarrow>
                  (case popup_look env p (w4 (PopupLook p)) of
                     LookRaises \<Rightarrow> (Some True, tick (PopupLook p) w4)
                   | NotShown \<Rightarrow> (Some True, tick (PopupLook p) w4)
                   | Shown None \<Rightarrow> (Some True, snd (close_popup env (tick (PopupLook p) w4)))
                   | Shown (Some message_text) \<Rightarrow>
                       (if py_in (exception_text p) message_text then
                          (if reload_attempt + 1 < max_reload_attempts then
                             reload_until_cleared env p max_reload_attempts (reload_attempt + 1)
                               (tick (PopupLook p) w4)
                           else (Some True, snd (close_popup env (tick (PopupLook p) w4))))
                        else (Some True, snd (close_popup env (tick (PopupLook p) w4))))))
         | (False, w3) \<Rightarrow>
             (if reload_attempt + 1 < max_reload_attempts then
                reload_until_cleared env p max_reload_attempts (reload_attempt + 1) w3
              else (Some False, snd (close_popup env w3))))))
      else (None, w))"
  by pat_completeness auto
termination
  by (relation "measure (\<lambda>(env, p, max_reload_attempts, reload_attempt, w).
        nat (max_reload_attempts - reload_attempt))") auto

declare reload_until_cleared.simps [simp del]

text \<open>
  The check of pop04 once it has been looked up again (bot.py 2660-2824). When the reload
  loop ends by its condition the function ends without \<^verbatim>\<open>return\<close>, giving \<^verbatim>\<open>None\<close>,
  which callers test like \<^verbatim>\<open>False\<close>.
\<close>

definition check_pop04_displayed :: "browser_env \<Rightarrow> int \<Rightarrow> world \<Rightarrow> bool \<times> world" where
  "check_pop04_displayed env max_reload_attempts w =
     (case popup_look env Pop04 (w (PopupLook Pop04)) of
        LookRaises \<Rightarrow> (False, tick (PopupLook Pop04) w)
      | NotShown \<Rightarrow> (False, tick (PopupLook Pop04) w)
      | Shown None \<Rightarrow> (False, snd (close_popup env (tick (PopupLook Pop04) w)))
      | Shown (Some pop04_message_text) \<Rightarrow>
          (if py_in (exception_text Pop04) pop04_message_text then
             (case reload_until_cleared env Pop04 max_reload_attempts 0 (tick (PopupLook Pop04) w) of
                (Some b, w1) \<Rightarrow> (b, w1)
              | (None, w1) \<Rightarrow> (False, w1))
           else (False, snd (close_popup env (tick (PopupLook Pop04) w)))))"

text \<open>
  The first \<^verbatim>\<open>find_elements(By.ID, "pop04")\<close> (bot.py 2657) and \<^verbatim>\<open>check_stop()\<close> (2658): the
  lookup is repeated at 2659, so the first one matters only when it raises; both a raise
  and a stop reach the outermost \<^verbatim>\<open>except Exception\<close> (2825), which returns \<^verbatim>\<open>False\<close>.
\<close>

definition check_pop04 :: "browser_env \<Rightarrow> int \<Rightarrow> world \<Rightarrow> bool \<times> world" where
  "check_pop04 env max_reload_attempts w =
     (case popup_look env Pop04 (w (PopupLook Pop04)) of
        LookRaises \<Rightarrow> (False, tick (PopupLook Pop04) w)
      | NotShown \<Rightarrow>
          (case check_stop (stop_check env) (tick (PopupLook Pop04) w) of
             (Inl e, w1) \<Rightarrow> (False, w1)
           | (Inr u, w1) \<Rightarrow> check_pop04_displayed env max_reload_attempts w1)
      | Shown t \<Rightarrow>
          (case check_stop (stop_check env) (tick (PopupLook Pop04) w) of
             (Inl e, w1) \<Rightarrow> (False, w1)
           | (Inr u, w1) \<Rightarrow> check_pop04_displayed env max_reload_attempts w1))"

text \<open>The handler: pop05 first (bot.py 2491-2654), then pop04.\<close>

definition check_and_handle_pop_exceptions :: "browser_env \<Rightarrow> int \<Rightarrow> world \<Rightarrow> bool \<times> world" where
  "check_and_handle_pop_exceptions env max_reload_attempts w =
     (case popup_look env Pop05 (w (PopupLook Pop05)) of
        LookRaises \<Rightarrow> (False, tick (PopupLook Pop05) w)
      | NotShown \<Rightarrow> check_pop04 env max_reload_attempts (tick (PopupLook Pop05) w)
      | Shown None \<Rightarrow> (False, snd (close_popup env (tick (PopupLook Pop05) w)))
      | Shown (Some pop05_message_text) \<Rightarrow>
          (if py_in (exception_text Pop05) pop05_message_text then
             (case reload_until_cleared env Pop05 max_reload_attempts 0 (tick (PopupLook Pop05) w) of
                (Some b, w1) \<Rightarrow> (b, w1)
              | (None, w1) \<Rightarrow> check_pop04 env max_reload_attempts w1)
           else (False, snd (close_popup env (tick (PopupLook Pop05) w)))))"

section \<open>The orchestrator: \<^verbatim>\<open>_process_all_lotteries\<close> (bot.py 1998-2481)\<close>

text \<open>
  The string literals of the function, as code points: the three status labels of the
  page (open, already completed, closed), the seven outcome statuses written into the
  results, and the pieces of the reason texts and of the final message.
\<close>

definition label_open :: pystr where
  "label_open =
     [0x53d7, 0x4ed8, 0x4e2d]"

definition label_completed :: pystr where
  "label_completed =
     [0x53d7, 0x4ed8, 0x5b8c, 0x4e86]"

definition label_closed :: pystr where
  "label_closed =
     [0x53d7, 0x4ed8, 0x7d42, 0x4e86]"

definition st_success :: pystr where
  "st_success =
     [0x6210, 0x529f]"

definition st_failure :: pystr where
  "st_failure =
     [0x5931, 0x6557]"

definition st_skipped_closed :: pystr where
  "st_skipped_closed =
     [0x30b9, 0x30ad, 0x30c3, 0x30d7, 0x28, 0x7d42, 0x4e86, 0x29]"

definition st_skipped_completed :: pystr where
  "st_skipped_completed =
     [0x30b9, 0x30ad, 0x30c3, 0x30d7, 0x28, 0x5b8c, 0x4e86, 0x29]"

definition st_not_exist :: pystr where
  "st_not_exist =
     [0x5b58, 0x5728, 0x3057, 0x306a, 0x3044]"

definition st_interrupted :: pystr where
  "st_interrupted =
     [0x4e2d, 0x65ad]"

definition st_unknown :: pystr where
  "st_unknown =
     [0x4e0d, 0x660e]"

definition lottery_word :: pystr where
  "lottery_word =
     [0x62bd, 0x9078]"

definition reason_not_exist :: pystr where
  "reason_not_exist =
     [0x306f, 0x5b58, 0x5728, 0x3057, 0x307e, 0x305b, 0x3093]"

definition reason_closed :: pystr where
  "reason_closed =
     [0x306f, 0x53d7, 0x4ed8, 0x7d42, 0x4e86, 0x3057, 0x3066, 0x3044, 0x307e, 0x3059]"

definition reason_completed :: pystr where
  "reason_completed =
     [0x306f, 0x53d7, 0x4ed8, 0x5b8c, 0x4e86, 0x3057, 0x3066, 0x3044, 0x307e, 0x3059]"

definition reason_success :: pystr where
  "reason_success =
     [0x306e, 0x51e6, 0x7406, 0x304c, 0x6210, 0x529f, 0x3057, 0x307e, 0x3057, 0x305f]"

definition reason_failure :: pystr where
  "reason_failure =
     [0x306e, 0x51e6, 0x7406, 0x304c, 0x5931, 0x6557, 0x3057, 0x307e, 0x3057, 0x305f]"

definition reason_interrupted :: pystr where
  "reason_interrupted =
     [0x306e, 0x51e6, 0x7406, 0x304c, 0x30e6, 0x30fc, 0x30b6, 0x30fc, 0x306b, 0x3088, 0x3063,
     0x3066, 0x4e2d, 0x65ad, 0x3055, 0x308c, 0x307e, 0x3057, 0x305f]"

definition reason_error :: pystr where
  "reason_error =
     [0x306e, 0x51e6, 0x7406, 0x3067, 0x30a8, 0x30e9, 0x30fc, 0x304c, 0x767a, 0x751f, 0x3057,
     0x307e, 0x3057, 0x305f, 0x3a, 0x20]"

definition reason_unknown :: pystr where
  "reason_unknown =
     [0x306e, 0x30b9, 0x30c6, 0x30fc, 0x30bf, 0x30b9, 0x304c, 0x4e0d, 0x660e, 0x3067, 0x3059,
     0x3a, 0x20]"

definition reason_reopened :: pystr where
  "reason_reopened =
     [0x306f, 0x518d, 0x78ba, 0x8a8d, 0x6642, 0x306b, 0x300c, 0x53d7, 0x4ed8, 0x4e2d, 0x300d,
     0x3067, 0x3057, 0x305f]"

definition reason_final_open :: pystr where
  "reason_final_open =
     [0x306f, 0x6700, 0x7d42, 0x78ba, 0x8a8d, 0x6642, 0x306b, 0x300c, 0x53d7, 0x4ed8, 0x4e2d,
     0x300d, 0x3067, 0x3057, 0x305f]"

definition part_closed :: pystr where
  "part_closed =
     [0x53d7, 0x4ed8, 0x7d42, 0x4e86]"

definition part_completed :: pystr where
  "part_completed =
     [0x53d7, 0x4ed8, 0x5b8c, 0x4e86]"

definition msg_processing_error :: pystr where
  "msg_processing_error =
     [0x51e6, 0x7406, 0x4e2d, 0x306b, 0x30a8, 0x30e9, 0x30fc, 0x304c, 0x767a, 0x751f, 0x3057,
     0x307e, 0x3057, 0x305f]"

definition msg_interrupted_prefix :: pystr where
  "msg_interrupted_prefix =
     [0x4e2d, 0x65ad, 0x3a, 0x20]"

definition msg_failure_prefix :: pystr where
  "msg_failure_prefix =
     [0x5931, 0x6557, 0x3a, 0x20]"

definition msg_separator :: pystr where
  "msg_separator =
     [0x3001]"

definition msg_final_open :: pystr where
  "msg_final_open =
     [0x5931, 0x6557, 0x3a, 0x20, 0x6700, 0x7d42, 0x78ba, 0x8a8d, 0x6642, 0x306b, 0x300c,
     0x53d7, 0x4ed8, 0x4e2d, 0x300d, 0x306e, 0x62bd, 0x9078, 0x304c, 0x6b8b, 0x3063, 0x3066,
     0x3044, 0x307e, 0x3057, 0x305f]"

definition msg_stopped_by_user :: pystr where
  "msg_stopped_by_user =
     [0x30e6, 0x30fc, 0x30b6, 0x30fc, 0x306b, 0x3088, 0x3063, 0x3066, 0x4e2d, 0x65ad, 0x3055,
     0x308c, 0x307e, 0x3057, 0x305f]"

definition msg_login_error_prefix :: pystr where
  "msg_login_error_prefix =
     [0x30ed, 0x30b0, 0x30a4, 0x30f3, 0x30a8, 0x30e9, 0x30fc, 0x3a, 0x20]"

definition passcode_word :: pystr where
  "passcode_word =
     [0x30d1, 0x30b9, 0x30b3, 0x30fc, 0x30c9]"

definition auth_failed_word :: pystr where
  "auth_failed_word =
     [0x8a8d, 0x8a3c, 0x306b, 0x5931, 0x6557]"

text \<open>\<^verbatim>\<open>f'{lottery_word}{n}{suffix}'\<close>: the shape of every reason and message part.\<close>

definition lottery_text :: "int \<Rightarrow> pystr \<Rightarrow> pystr" where
  "lottery_text n suffix = lottery_word @ str_int n @ suffix"

text \<open>One entry of \<^verbatim>\<open>lottery_results\<close>, and the dictionary the function returns.\<close>

record lottery_result =
  lottery :: int
  status :: pystr
  reason :: pystr

record session_outcome =
  results :: "lottery_result list"
  final_status :: pystr
  message :: pystr

text \<open>The local variables of the function.\<close>

record orch_state =
  completed_lotteries :: "int set"
  lottery_results :: "lottery_result list"
  retry_attempt :: nat
  final_status_v :: pystr
  final_message :: pystr
  reload_occurred :: bool
  lottery_index :: nat
  checked_count :: nat

definition max_retry_attempts :: nat where
  "max_retry_attempts = 10"

definition append_result :: "int \<Rightarrow> pystr \<Rightarrow> pystr \<Rightarrow> orch_state \<Rightarrow> orch_state" where
  "append_result n s r st =
     st\<lparr>lottery_results := lottery_results st @ [\<lparr>lottery = n, status = s, reason = r\<rparr>]\<rparr>"

definition next_lottery :: "orch_state \<Rightarrow> orch_state" where
  "next_lottery st = st\<lparr>lottery_index := lottery_index st + 1\<rparr>"

definition restart_after_reload :: "orch_state \<Rightarrow> orch_state" where
  "restart_after_reload st = st\<lparr>reload_occurred := True, retry_attempt := retry_attempt st + 1\<rparr>"

text \<open>
  \<^verbatim>\<open>if "apply.html" not in driver.current_url: try: driver.get(APPLY_URL); n times
  check_stop() except Exception: log(..)\<close> (bot.py 2057-2067, 2077-2087). Reading the URL is
  outside the \<^verbatim>\<open>try\<close>; a failed navigation and a stop seen in the wait are swallowed.
\<close>

definition ensure_apply_page :: "browser_env \<Rightarrow> nat \<Rightarrow> world \<Rightarrow> (exn + unit) \<times> world" where
  "ensure_apply_page env n w =
     (case current_url env (w CurrentUrl) of
        Raises m \<Rightarrow> (Inl (Exception m), tick CurrentUrl w)
      | Gives url \<Rightarrow>
          (if \<not> py_in apply_html url then
             (case driver_get env (tick CurrentUrl w DriverGet) of
                Raises m \<Rightarrow> (Inr (), tick DriverGet (tick CurrentUrl w))
              | Gives u \<Rightarrow>
                  (Inr (), snd (check_stops n (stop_check env) (tick DriverGet (tick CurrentUrl w)))))
           else (Inr (), tick CurrentUrl w)))"

text \<open>The same with the URL read inside the \<^verbatim>\<open>try\<close> (bot.py 2207-2215, 2247-2255).\<close>

definition return_to_apply_page :: "browser_env \<Rightarrow> nat \<Rightarrow> world \<Rightarrow> world" where
  "return_to_apply_page env n w = snd (ensure_apply_page env n w)"

text \<open>How one iteration of the item loop ends.\<close>

datatype item_exit = ItemNext orch_state | ItemBreak orch_state | ItemRaise exn

text \<open>
  An open item (bot.py 2142-2256). The \<^verbatim>\<open>check_stop()\<close> at 2144 is before the \<^verbatim>\<open>try\<close>.
  A stop raised inside the \<^verbatim>\<open>try\<close> reaches \<^verbatim>\<open>except StopIteration\<close> (2217-2224), which
  appends an interrupted entry to the local list and re-raises: the list goes with the
  exception. A stop raised inside the \<^verbatim>\<open>except Exception\<close> clause leaves directly.
\<close>

definition process_open_item ::
  "browser_env \<Rightarrow> int list \<Rightarrow> int \<Rightarrow> orch_state \<Rightarrow> world \<Rightarrow> item_exit \<times> world" where
  "process_open_item env selected_lotteries lottery_number st w =
     (case check_stop (stop_check env) w of
        (Inl e, w1) \<Rightarrow> (ItemRaise e, w1)
      | (Inr u1, w1) \<Rightarrow>
     (case process_lottery_entry env (w1 LotteryEntry) lottery_number of
        EntryStop \<Rightarrow> (ItemRaise StopIteration, tick LotteryEntry w1)
      | EntryReloadNeeded \<Rightarrow> (ItemBreak (restart_after_reload st), tick LotteryEntry w1)
      | EntryTrue \<Rightarrow>
          (let st1 = append_result lottery_number st_success
                       (lottery_text lottery_number reason_success)
                       (st\<lparr>completed_lotteries := insert lottery_number (completed_lotteries st)\<rparr>)
           in case check_stop (stop_check env) (tick LotteryEntry w1) of
                (Inl e, w2) \<Rightarrow> (ItemRaise e, w2)
              | (Inr u2, w2) \<Rightarrow>
                  (case check_and_handle_pop_exceptions env 5 w2 of
                     (True, w3) \<Rightarrow> (ItemBreak (restart_after_reload st1), w3)
                   | (False, w3) \<Rightarrow>
                       (case check_stop (stop_check env) w3 of
                          (Inl e, w4) \<Rightarrow> (ItemRaise e, w4)
                        | (Inr u4, w4) \<Rightarrow> (ItemNext (next_lottery st1), w4))))
      | EntryFalse \<Rightarrow>
          (let st1 = append_result lottery_number st_failure
                       (lottery_text lottery_number reason_failure) st
           in case check_stop (stop_check env) (tick LotteryEntry w1) of
                (Inl e, w2) \<Rightarrow> (ItemRaise e, w2)
              | (Inr u2, w2) \<Rightarrow>
                  (case check_and_handle_pop_exceptions env 5 w2 of
                     (True, w3) \<Rightarrow> (ItemBreak (restart_after_reload st1), w3)
                   | (False, w3) \<Rightarrow>
                       (if lottery_index st1 < length selected_lotteries then
                          (case check_stop (stop_check env) w3 of
                             (Inl e, w4) \<Rightarrow> (ItemRaise e, w4)
                           | (Inr u4, w4) \<Rightarrow>
                               (ItemNext (next_lottery st1), return_to_apply_page env 3 w4))
                        else (ItemNext (next_lottery st1), w3))))
      | EntryError m \<Rightarrow>
          (let st1 = append_result lottery_number st_failure
                       (lottery_text lottery_number (reason_error @ take 100 m)) st
           in case check_stop (stop_check env) (tick LotteryEntry w1) of
                (Inl e, w2) \<Rightarrow> (ItemRaise e, w2)
              | (Inr u2, w2) \<Rightarrow>
                  (case check_and_handle_pop_exceptions env 5 w2 of
                     (True, w3) \<Rightarrow> (ItemBreak (restart_after_reload st1), w3)
                   | (False, w3) \<Rightarrow>
                       (if lottery_index st1 < length selected_lotteries then
                          (case check_stop (stop_check env) w3 of
                             (Inl e, w4) \<Rightarrow> (ItemRaise e, w4)
                           | (Inr u4, w4) \<Rightarrow>
                               (ItemNext (next_lottery st1), return_to_apply_page env 3 w4))
                        else (ItemNext (next_lottery st1), w3))))))"

text \<open>
  The body of \<^verbatim>\<open>while lottery_index < len(selected_lotteries)\<close> (bot.py 2071-2264); the
  loop condition guards the index.
\<close>

definition process_item ::
  "browser_env \<Rightarrow> int list \<Rightarrow> orch_state \<Rightarrow> world \<Rightarrow> item_exit \<times> world" where
  "process_item env selected_lotteries st w =
     (case check_stop (stop_check env) w of
        (Inl e, w1) \<Rightarrow> (ItemRaise e, w1)
      | (Inr u1, w1) \<Rightarrow>
     (let lottery_number = selected_lotteries ! lottery_index st in
      case ensure_apply_page env 5 w1 of
        (Inl e, w2) \<Rightarrow> (ItemRaise e, w2)
      | (Inr u2, w2) \<Rightarrow>
          (if lottery_number \<in> completed_lotteries st then
             (ItemNext (next_lottery st\<lparr>checked_count := checked_count st + 1\<rparr>), w2)
           else
             (let (status_text, exists) = check_lottery_status env (w2 LotteryStatus) lottery_number;
                  w3 = tick LotteryStatus w2;
                  st1 = st\<lparr>checked_count := checked_count st + 1\<rparr>
              in if \<not> exists then
                   (ItemNext (next_lottery (append_result lottery_number st_not_exist
                      (lottery_text lottery_number reason_not_exist) st1)), w3)
                 else if \<not> truthy status_text then (ItemNext (next_lottery st1), w3)
                 else if status_text = Some label_closed then
                   (ItemNext (next_lottery (append_result lottery_number st_skipped_closed
                      (lottery_text lottery_number reason_closed) st1)), w3)
                 else if status_text = Some label_completed then
                   (ItemNext (next_lottery (append_result lottery_number st_skipped_completed
                      (lottery_text lottery_number reason_completed)
                      (st1\<lparr>completed_lotteries := insert lottery_number (completed_lotteries st1)\<rparr>))), w3)
                 else if status_text = Some label_open then
                   process_open_item env selected_lotteries lottery_number st1 w3
                 else
                   (ItemNext (next_lottery (append_result lottery_number st_unknown
                      (lottery_text lottery_number (reason_unknown @ dict_get status_text []))
                      st1)), w3)))))"

lemma process_open_item_next:
  "process_open_item env sel n st w = (ItemNext st', w')
   \<Longrightarrow> lottery_index st' = Suc (lottery_index st) \<and> checked_count st' = checked_count st
     \<and> retry_attempt st' = retry_attempt st \<and> reload_occurred st' = reload_occurred st"
  by (auto simp: process_open_item_def Let_def next_lottery_def append_result_def
      split: prod.splits sum.splits entry_outcome.splits bool.splits if_splits)

lemma process_item_next:
  "process_item env sel st w = (ItemNext st', w')
   \<Longrightarrow> lottery_index st' = Suc (lottery_index st) \<and> checked_count st' = Suc (checked_count st)
     \<and> retry_attempt st' = retry_attempt st \<and> reload_occurred st' = reload_occurred st"
  by (auto simp: process_item_def Let_def next_lottery_def append_result_def
      dest!: process_open_item_next
      split: prod.splits sum.splits if_splits)

text \<open>The item loop of one pass.\<close>

function items_loop ::
  "browser_env \<Rightarrow> int list \<Rightarrow> orch_state \<Rightarrow> world \<Rightarrow> (exn + orch_state) \<times> world" where
  "items_loop env selected_lotteries st w =
     (if lottery_index st < length selected_lotteries then
        (case process_item env selected_lotteries st w of
           (ItemNext st1, w1) \<Rightarrow> items_loop env selected_lotteries st1 w1
         | (ItemBreak st1, w1) \<Rightarrow> (Inr st1, w1)
         | (ItemRaise e, w1) \<Rightarrow> (Inl e, w1))
      else (Inr st, w))"
  by pat_completeness auto
termination
proof (relation "measure (\<lambda>(env, selected_lotteries, st, w).
          length selected_lotteries - lottery_index st)", goal_cases)
  case 1
  show ?case by simp
next
  case (2 env selected_lotteries st w x y st1)
  then have "process_item env selected_lotteries st w = (ItemNext st1, y)"
    by simp
  from process_item_next [OF this] 2 show ?case
    by simp
qed

declare items_loop.simps [simp del]

text \<open>
  The re-verification after a pass (bot.py 2285-2300): an item still open is taken out of
  the completed set, and its first successful entry is turned into a failure.
\<close>

fun mark_reopened :: "int \<Rightarrow> lottery_result list \<Rightarrow> lottery_result list" where
  "mark_reopened n [] = []"
| "mark_reopened n (result # rest) =
     (if lottery result = n \<and> status result = st_success
      then result\<lparr>status := st_failure, reason := lottery_text n reason_reopened\<rparr> # rest
      else result # mark_reopened n rest)"

fun reverify_open ::
  "browser_env \<Rightarrow> int list \<Rightarrow> bool \<Rightarrow> orch_state \<Rightarrow> world \<Rightarrow> (exn + bool \<times> orch_state) \<times> world" where
  "reverify_open env [] has_open_lotteries st w = (Inr (has_open_lotteries, st), w)"
| "reverify_open env (check_lottery_num # rest) has_open_lotteries st w =
     (case check_stop (stop_check env) w of
        (Inl e, w1) \<Rightarrow> (Inl e, w1)
      | (Inr u, w1) \<Rightarrow>
          (case check_lottery_status env (w1 LotteryStatus) check_lottery_num of
             (status_text, exists) \<Rightarrow>
               (if exists \<and> status_text = Some label_open then
                  reverify_open env rest True
                    (if check_lottery_num \<in> completed_lotteries st
                     then st\<lparr>completed_lotteries := completed_lotteries st - {check_lottery_num},
                             lottery_results := mark_reopened check_lottery_num (lottery_results st)\<rparr>
                     else st)
                    (tick LotteryStatus w1)
                else reverify_open env rest has_open_lotteries st (tick LotteryStatus w1))))"

text \<open>The check made when every selected item is in the completed set (bot.py 2313-2321).\<close>

fun verify_all_completed :: "browser_env \<Rightarrow> int list \<Rightarrow> world \<Rightarrow> (exn + bool) \<times> world" where
  "verify_all_completed env [] w = (Inr True, w)"
| "verify_all_completed env (verify_lottery_num # rest) w =
     (case check_stop (stop_check env) w of
        (Inl e, w1) \<Rightarrow> (Inl e, w1)
      | (Inr u, w1) \<Rightarrow>
          (case check_lottery_status env (w1 LotteryStatus) verify_lottery_num of
             (status_text, exists) \<Rightarrow>
               (if exists \<and> status_text \<notin> set [Some label_completed, Some label_closed] then
                  (if status_text = Some label_open then (Inr False, tick LotteryStatus w1)
                   else verify_all_completed env rest (tick LotteryStatus w1))
                else verify_all_completed env rest (tick LotteryStatus w1))))"

text \<open>
  The final verification (bot.py 2436-2453): the first entry of a still open item is
  looked at, and turned into a failure when it is a success.
\<close>

fun mark_final_open :: "int \<Rightarrow> lottery_result list \<Rightarrow> lottery_result list" where
  "mark_final_open n [] = []"
| "mark_final_open n (result # rest) =
     (if lottery result = n then
        (if status result = st_success
         then result\<lparr>status := st_failure, reason := lottery_text n reason_final_open\<rparr>
         else result) # rest
      else result # mark_final_open n rest)"

fun final_verification ::
  "browser_env \<Rightarrow> int list \<Rightarrow> bool \<Rightarrow> orch_state \<Rightarrow> world \<Rightarrow> (exn + bool \<times> orch_state) \<times> world" where
  "final_verification env [] all_final_verified st w = (Inr (all_final_verified, st), w)"
| "final_verification env (final_verify_num # rest) all_final_verified st w =
     (case check_stop (stop_check env) w of
        (Inl e, w1) \<Rightarrow> (Inl e, w1)
      | (Inr u, w1) \<Rightarrow>
          (case check_lottery_status env (w1 LotteryStatus) final_verify_num of
             (status_text, exists) \<Rightarrow>
               (if exists then
                  (if status_text = Some label_open then
                     final_verification env rest False
                       (st\<lparr>completed_lotteries :=
                             (if final_verify_num \<in> completed_lotteries st
                              then completed_lotteries st - {final_verify_num}
                              else completed_lotteries st),
                           lottery_results := mark_final_open final_verify_num (lottery_results st)\<rparr>)
                       (tick LotteryStatus w1)
                   else final_verification env rest all_final_verified st (tick LotteryStatus w1))
                else final_verification env rest all_final_verified st (tick LotteryStatus w1))))"

text \<open>The aggregation step (bot.py 2347-2430): the flags, and one phrase per entry.\<close>

record result_flags =
  has_failure :: bool
  has_skipped_closed :: bool
  has_skipped_completed :: bool
  has_success :: bool
  has_not_exist :: bool
  has_interrupted :: bool
  detail_parts :: "pystr list"

definition no_flags :: result_flags where
  "no_flags = \<lparr> has_failure = False, has_skipped_closed = False, has_skipped_completed = False,
     has_success = False, has_not_exist = False, has_interrupted = False, detail_parts = [] \<rparr>"

fun scan_results :: "lottery_result list \<Rightarrow> result_flags \<Rightarrow> result_flags" where
  "scan_results [] f = f"
| "scan_results (result # rest) f =
     scan_results rest
       (if status result = st_success then
          f\<lparr>has_success := True,
            detail_parts := detail_parts f @ [lottery_text (lottery result) st_success]\<rparr>
        else if status result = st_failure then
          f\<lparr>has_failure := True,
            detail_parts := detail_parts f @ [lottery_text (lottery result) st_failure]\<rparr>
        else if status result = st_skipped_closed then
          f\<lparr>has_skipped_closed := True,
            detail_parts := detail_parts f @ [lottery_text (lottery result) part_closed]\<rparr>
        else if status result = st_skipped_completed then
          f\<lparr>has_skipped_completed := True,
            detail_parts := detail_parts f @ [lottery_text (lottery result) part_completed]\<rparr>
        else if status result = st_not_exist then
          f\<lparr>has_not_exist := True,
            detail_parts := detail_parts f @ [lottery_text (lottery result) st_not_exist]\<rparr>
        else if status result = st_interrupted then
          f\<lparr>has_interrupted := True,
            detail_parts := detail_parts f @ [lottery_text (lottery result) st_interrupted]\<rparr>
        else if status result = st_unknown then
          f\<lparr>detail_parts := detail_parts f @ [lottery_text (lottery result) st_unknown]\<rparr>
        else f)"

text \<open>\<^verbatim>\<open>sep.join(parts)\<close>\<close>

fun py_join :: "pystr \<Rightarrow> pystr list \<Rightarrow> pystr" where
  "py_join sep [] = []"
| "py_join sep [x] = x"
| "py_join sep (x # y # ys) = x @ sep @ py_join sep (y # ys)"

text \<open>The loop with \<^verbatim>\<open>break\<close> of bot.py 2407-2416.\<close>

fun all_success_or_completed :: "lottery_result list \<Rightarrow> bool" where
  "all_success_or_completed [] = True"
| "all_success_or_completed (result # rest) =
     (if status result \<notin> set [st_success, st_skipped_completed] then False
      else all_success_or_completed rest)"

definition determine_final_status :: "lottery_result list \<Rightarrow> pystr \<times> pystr" where
  "determine_final_status rs =
     (let f = scan_results rs no_flags in
      if has_interrupted f then
        (st_interrupted, msg_interrupted_prefix @ py_join msg_separator (detail_parts f))
      else if has_failure f \<or> has_skipped_closed f \<or> has_not_exist f then
        (st_failure, msg_failure_prefix @ py_join msg_separator (detail_parts f))
      else if all_success_or_completed rs then (st_success, st_success)
      else (st_failure, msg_failure_prefix @ py_join msg_separator (detail_parts f)))"

text \<open>
  What follows the item loop of a pass. \<open>Proceed\<close>: the first block (bot.py 2272-2336)
  is left for the final status determination.
\<close>

datatype block_exit = ContinueA orch_state | BreakA orch_state | Proceed orch_state

datatype pass_exit = Continue orch_state | Break orch_state

definition completed_check ::
  "browser_env \<Rightarrow> int list \<Rightarrow> orch_state \<Rightarrow> world \<Rightarrow> (exn + block_exit) \<times> world" where
  "completed_check env selected_lotteries st w =
     (case reverify_open env selected_lotteries False st w of
        (Inl e, w1) \<Rightarrow> (Inl e, w1)
      | (Inr (has_open_lotteries, st1), w1) \<Rightarrow>
          (if has_open_lotteries then
             (Inr (ContinueA (st1\<lparr>retry_attempt := retry_attempt st1 + 1\<rparr>)), w1)
           else
             (let selected_completed =
                    filter (\<lambda>lottery_num. lottery_num \<in> completed_lotteries st1) selected_lotteries
              in if length selected_completed \<ge> length selected_lotteries then
                   (case verify_all_completed env selected_lotteries w1 of
                      (Inl e, w2) \<Rightarrow> (Inl e, w2)
                    | (Inr all_verified_completed, w2) \<Rightarrow>
                        (if all_verified_completed then
                           (Inr (BreakA (st1\<lparr>final_status_v := st_success,
                                              final_message := st_success\<rparr>)), w2)
                         else
                           (Inr (ContinueA (st1\<lparr>retry_attempt := retry_attempt st1 + 1\<rparr>)), w2)))
                 else (Inr (Proceed st1), w1))))"

text \<open>
  The final status determination of a pass (bot.py 2340-2472). Every status other than
  success ends the loop, by the \<^verbatim>\<open>break\<close> at 2430 or the one at 2472.
\<close>

definition final_status_block ::
  "browser_env \<Rightarrow> int list \<Rightarrow> orch_state \<Rightarrow> world \<Rightarrow> (exn + pass_exit) \<times> world" where
  "final_status_block env selected_lotteries st w =
     (case determine_final_status (lottery_results st) of
        (fs, fm) \<Rightarrow>
          (let st1 = st\<lparr>final_status_v := fs, final_message := fm\<rparr> in
           if fs = st_success then
             (case final_verification env selected_lotteries True st1 w of
                (Inl e, w1) \<Rightarrow> (Inl e, w1)
              | (Inr (all_final_verified, st2), w1) \<Rightarrow>
                  (if all_final_verified then (Inr (Break st2), w1)
                   else if retry_attempt st2 < max_retry_attempts - 1 then
                     (Inr (Continue (st2\<lparr>retry_attempt := retry_attempt st2 + 1\<rparr>)), w1)
                   else
                     (Inr (Break (st2\<lparr>final_status_v := st_failure,
                                       final_message := msg_final_open\<rparr>)), w1)))
           else (Inr (Break st1), w)))"

definition after_pass ::
  "browser_env \<Rightarrow> int list \<Rightarrow> orch_state \<Rightarrow> world \<Rightarrow> (exn + pass_exit) \<times> world" where
  "after_pass env selected_lotteries st w =
     (if reload_occurred st then (Inr (Continue st), w)
      else
        (case (if checked_count st \<ge> length selected_lotteries
               then completed_check env selected_lotteries st w
               else (Inr (Proceed st), w)) of
           (Inl e, w1) \<Rightarrow> (Inl e, w1)
         | (Inr (ContinueA st1), w1) \<Rightarrow> (Inr (Continue st1), w1)
         | (Inr (BreakA st1), w1) \<Rightarrow> (Inr (Break st1), w1)
         | (Inr (Proceed st1), w1) \<Rightarrow>
             (if checked_count st1 \<ge> length selected_lotteries
              then final_status_block env selected_lotteries st1 w1
              else (Inr (Continue st1), w1))))"

text \<open>
  One pass of \<^verbatim>\<open>while retry_attempt < max_retry_attempts\<close> (bot.py 2037-2472): the
  prologue, the item loop and what follows it.
\<close>

definition one_pass ::
  "browser_env \<Rightarrow> int list \<Rightarrow> orch_state \<Rightarrow> world \<Rightarrow> (exn + pass_exit) \<times> world" where
  "one_pass env selected_lotteries st w =
     (let st0 = st\<lparr>reload_occurred := False, lottery_index := 0, checked_count := 0\<rparr> in
      case check_stop (stop_check env) w of
        (Inl e, w1) \<Rightarrow> (Inl e, w1)
      | (Inr u1, w1) \<Rightarrow>
     (case check_stop (stop_check env) (tick CaptchaCheck w1) of
        (Inl e, w2) \<Rightarrow> (Inl e, w2)
      | (Inr u2, w2) \<Rightarrow>
     (case ensure_apply_page env 5 w2 of
        (Inl e, w3) \<Rightarrow> (Inl e, w3)
      | (Inr u3, w3) \<Rightarrow>
     (case items_loop env selected_lotteries st0 w3 of
        (Inl e, w4) \<Rightarrow> (Inl e, w4)
      | (Inr st1, w4) \<Rightarrow> after_pass env selected_lotteries st1 w4))))"

text \<open>
  Every way back to the head of the \<^verbatim>\<open>while\<close> loop has incremented \<^verbatim>\<open>retry_attempt\<close>:
  a pass that ends without reload has counted every selected item in \<^verbatim>\<open>checked_count\<close>.
\<close>

lemma process_open_item_break:
  "process_open_item env sel n st w = (ItemBreak st', w')
   \<Longrightarrow> reload_occurred st' \<and> retry_attempt st' = Suc (retry_attempt st)"
  by (auto simp: process_open_item_def Let_def next_lottery_def append_result_def
      restart_after_reload_def
      split: prod.splits sum.splits entry_outcome.splits bool.splits if_splits)

lemma process_item_break:
  "process_item env sel st w = (ItemBreak st', w')
   \<Longrightarrow> reload_occurred st' \<and> retry_attempt st' = Suc (retry_attempt st)"
  by (auto simp: process_item_def Let_def next_lottery_def append_result_def
      dest!: process_open_item_break
      split: prod.splits sum.splits if_splits)

lemma items_loop_progress:
  "items_loop env sel st w = (Inr st', w') \<Longrightarrow> \<not> reload_occurred st
   \<Longrightarrow> lottery_index st \<le> length sel
   \<Longrightarrow> (reload_occurred st' \<and> retry_attempt st' = Suc (retry_attempt st))
     \<or> (\<not> reload_occurred st' \<and> retry_attempt st' = retry_attempt st
        \<and> checked_count st' = checked_count st + (length sel - lottery_index st))"
proof (induction env sel st w rule: items_loop.induct)
  case (1 env sel st w)
  show ?case
  proof (cases "lottery_index st < length sel")
    case False
    with "1.prems" show ?thesis
      by (simp add: items_loop.simps)
  next
    case True
    obtain x w1 where pi: "process_item env sel st w = (x, w1)"
      by (cases "process_item env sel st w")
    show ?thesis
    proof (cases x)
      case (ItemNext st1)
      with pi True "1.prems" have run: "items_loop env sel st1 w1 = (Inr st', w')"
        by (simp add: items_loop.simps)
      from process_item_next pi ItemNext
      have keep: "lottery_index st1 = Suc (lottery_index st)"
        "checked_count st1 = Suc (checked_count st)"
        "retry_attempt st1 = retry_attempt st" "reload_occurred st1 = reload_occurred st"
        by blast+
      have "(reload_occurred st' \<and> retry_attempt st' = Suc (retry_attempt st1))
          \<or> (\<not> reload_occurred st' \<and> retry_attempt st' = retry_attempt st1
            \<and> checked_count st' = checked_count st1 + (length sel - lottery_index st1))"
        using "1.IH" [OF True pi [symmetric] ItemNext run] keep "1.prems" True
        by simp
      with keep True show ?thesis
        by auto
    next
      case (ItemBreak st1)
      with pi True "1.prems" have "st' = st1"
        by (simp add: items_loop.simps)
      with process_item_break pi ItemBreak show ?thesis
        by blast
    next
      case (ItemRaise e)
      with pi True "1.prems" show ?thesis
        by (simp add: items_loop.simps)
    qed
  qed
qed

lemma reverify_open_keeps:
  "reverify_open env sel b st w = (Inr (b', st'), w')
   \<Longrightarrow> retry_attempt st' = retry_attempt st \<and> checked_count st' = checked_count st"
  by (induction env sel b st w rule: reverify_open.induct)
     (auto split: prod.splits sum.splits if_splits)

lemma final_verification_keeps:
  "final_verification env sel b st w = (Inr (b', st'), w')
   \<Longrightarrow> retry_attempt st' = retry_attempt st \<and> checked_count st' = checked_count st"
  by (induction env sel b st w rule: final_verification.induct)
     (auto split: prod.splits sum.splits if_splits)

lemma completed_check_continue:
  "completed_check env sel st w = (Inr (ContinueA st'), w')
   \<Longrightarrow> retry_attempt st' = Suc (retry_attempt st)"
  by (auto simp: completed_check_def Let_def dest!: reverify_open_keeps
      split: prod.splits sum.splits if_splits)

lemma completed_check_proceed:
  "completed_check env sel st w = (Inr (Proceed st'), w')
   \<Longrightarrow> retry_attempt st' = retry_attempt st \<and> checked_count st' = checked_count st"
  by (auto simp: completed_check_def Let_def dest!: reverify_open_keeps
      split: prod.splits sum.splits if_splits)

lemma final_status_block_continue:
  "final_status_block env sel st w = (Inr (Continue st'), w')
   \<Longrightarrow> retry_attempt st' = Suc (retry_attempt st)"
  by (auto simp: final_status_block_def Let_def dest!: final_verification_keeps
      split: prod.splits sum.splits if_splits)

lemma after_pass_continue:
  "after_pass env sel st w = (Inr (Continue st'), w') \<Longrightarrow> \<not> reload_occurred st
   \<Longrightarrow> length sel \<le> checked_count st \<Longrightarrow> retry_attempt st' = Suc (retry_attempt st)"
  by (auto simp: after_pass_def
      dest!: completed_check_continue completed_check_proceed final_status_block_continue
      split: prod.splits sum.splits block_exit.splits if_splits)

lemma one_pass_continue:
  assumes "one_pass env sel st w = (Inr (Continue st'), w')"
  shows "retry_attempt st' = Suc (retry_attempt st)"
proof -
  let ?st0 = "st\<lparr>reload_occurred := False, lottery_index := 0, checked_count := 0\<rparr>"
  from assms obtain w3 st1 w4 where
    il: "items_loop env sel ?st0 w3 = (Inr st1, w4)" and
    ap: "after_pass env sel st1 w4 = (Inr (Continue st'), w')"
    by (auto simp: one_pass_def Let_def split: prod.splits sum.splits)
  from items_loop_progress [OF il]
  consider "reload_occurred st1" "retry_attempt st1 = Suc (retry_attempt st)"
    | "\<not> reload_occurred st1" "retry_attempt st1 = retry_attempt st"
      "checked_count st1 = length sel"
    by auto
  then show ?thesis
  proof cases
    case 1
    with ap show ?thesis by (simp add: after_pass_def)
  next
    case 2
    with after_pass_continue [OF ap] show ?thesis by simp
  qed
qed

text \<open>The \<^verbatim>\<open>while retry_attempt < max_retry_attempts\<close> loop.\<close>

function retry_loop ::
  "browser_env \<Rightarrow> int list \<Rightarrow> orch_state \<Rightarrow> world \<Rightarrow> (exn + orch_state) \<times> world" where
  "retry_loop env selected_lotteries st w =
     (if retry_attempt st < max_retry_attempts then
        (case one_pass env selected_lotteries st w of
           (Inl e, w1) \<Rightarrow> (Inl e, w1)
         | (Inr (Continue st1), w1) \<Rightarrow> retry_loop env selected_lotteries st1 w1
         | (Inr (Break st1), w1) \<Rightarrow> (Inr st1, w1))
      else (Inr st, w))"
  by pat_completeness auto
termination
proof (relation "measure (\<lambda>(env, selected_lotteries, st, w).
          max_retry_attempts - retry_attempt st)", goal_cases)
  case 1
  show ?case by simp
next
  case (2 env selected_lotteries st w x y z st1)
  then have "one_pass env selected_lotteries st w = (Inr (Continue st1), y)"
    by simp
  from one_pass_continue [OF this] 2 show ?case
    by simp
qed

declare retry_loop.simps [simp del]

text \<open>The default and the normalisation of the selection (bot.py 2020-2024).\<close>

definition effective_selection :: "int list option \<Rightarrow> int list" where
  "effective_selection selected_lotteries =
     sort (remdups
       (case selected_lotteries of
          None \<Rightarrow> [1]
        | Some xs \<Rightarrow> (if length xs = 0 then [1] else xs)))"

definition initial_state :: orch_state where
  "initial_state = \<lparr> completed_lotteries = {}, lottery_results = [], retry_attempt = 0,
     final_status_v = st_failure, final_message = msg_processing_error,
     reload_occurred = False, lottery_index = 0, checked_count = 0 \<rparr>"

definition process_all_lotteries ::
  "browser_env \<Rightarrow> int list option \<Rightarrow> world \<Rightarrow> (exn + session_outcome) \<times> world" where
  "process_all_lotteries env selected_lotteries w =
     (case retry_loop env (effective_selection selected_lotteries) initial_state w of
        (Inl e, w1) \<Rightarrow> (Inl e, w1)
      | (Inr st, w1) \<Rightarrow>
          (Inr \<lparr> results = lottery_results st, final_status = final_status_v st,
                 message = final_message st \<rparr>, w1))"

text \<open>\<^verbatim>\<open>set_selected_lotteries\<close> (bot.py 56-59), giving the new value of the global.\<close>

definition set_selected_lotteries :: "int list option \<Rightarrow> int list" where
  "set_selected_lotteries lottery_numbers =
     (case lottery_numbers of
        None \<Rightarrow> [1]
      | Some xs \<Rightarrow> (if xs = [] then [1] else sort xs))"

section \<open>The batch entry point: \<^verbatim>\<open>lottery_begin\<close> (bot.py 1108-1701)\<close>

definition login_html :: pystr where
  "login_html = ascii ''login.html''"

definition login_mfa :: pystr where
  "login_mfa = ascii ''login-mfa''"

text \<open>\<^verbatim>\<open>str(EMAIL)\<close> inside the exception messages.\<close>

definition email_str :: "browser_env \<Rightarrow> pystr" where
  "email_str env = (case email env of None \<Rightarrow> ascii ''None'' | Some e \<Rightarrow> e)"

definition max_login_attempts :: int where
  "max_login_attempts = 3"

definition max_otp_retries :: int where
  "max_otp_retries = 2"

text \<open>
  One retry of the OTP loop (bot.py 1151-1264). \<open>OtpDone\<close>: \<^verbatim>\<open>otp_success = True\<close> and
  \<^verbatim>\<open>break\<close>. \<open>OtpAgain\<close>: the retry failed, which everywhere ends in \<^verbatim>\<open>continue\<close> when
  a retry remains and in \<^verbatim>\<open>break\<close> otherwise.
\<close>

datatype otp_exit = OtpDone | OtpAgain | OtpRaise exn

text \<open>After the OTP has been submitted and the wait is over (bot.py 1207-1264).\<close>

definition otp_response :: "browser_env \<Rightarrow> world \<Rightarrow> otp_exit \<times> world" where
  "otp_response env w =
     (case current_url env (w CurrentUrl) of
        Raises m \<Rightarrow> (OtpRaise (Exception m), tick CurrentUrl w)
      | Gives logged_url \<Rightarrow>
     (case check_login_status_message env (w LoginStatusMessage) of
        (status_message, is_failure) \<Rightarrow>
     (let w1 = tick LoginStatusMessage (tick CurrentUrl w) in
      if truthy status_message \<and> is_failure then (OtpAgain, w1)
      else
        (case current_url env (w1 CurrentUrl) of
           Raises m \<Rightarrow> (OtpRaise (Exception m), tick CurrentUrl w1)
         | Gives url \<Rightarrow>
             (if py_in login_mfa url then
                (case page_source env (w1 PageSource) of
                   Raises m \<Rightarrow> (OtpRaise (Exception m), tick PageSource (tick CurrentUrl w1))
                 | Gives src \<Rightarrow> (OtpAgain, tick PageSource (tick CurrentUrl w1)))
              else
                (case current_url env (tick CurrentUrl w1 CurrentUrl) of
                   Raises m \<Rightarrow> (OtpRaise (Exception m), tick CurrentUrl (tick CurrentUrl w1))
                 | Gives url2 \<Rightarrow>
                     (if \<not> py_in login_html url2 then (OtpDone, tick CurrentUrl (tick CurrentUrl w1))
                      else (OtpAgain, tick LoginStatusMessage (tick CurrentUrl (tick CurrentUrl w1))))))))))"

definition otp_retry_once :: "browser_env \<Rightarrow> world \<Rightarrow> otp_exit \<times> world" where
  "otp_retry_once env w =
     (case check_stops 6 (stop_check env) w of
        (Inl e, w1) \<Rightarrow> (OtpRaise e, w1)
      | (Inr u1, w1) \<Rightarrow>
     (case get_otp_from_gmail env (w1 OtpFetch) of
        OtpStop \<Rightarrow> (OtpRaise StopIteration, tick OtpFetch w1)
      | OtpError m \<Rightarrow> (OtpAgain, tick OtpFetch w1)
      | OtpCode otp \<Rightarrow>
     (case check_stop (stop_check env) (tick OtpFetch w1) of
        (Inl e, w2) \<Rightarrow> (OtpRaise e, w2)
      | (Inr u2, w2) \<Rightarrow>
          (if \<not> otp_enter env (w2 OtpEnter) then (OtpAgain, tick OtpEnter w2)
           else
             (case check_stop (stop_check env) (tick OtpEnter w2) of
                (Inl e, w3) \<Rightarrow> (OtpRaise e, w3)
              | (Inr u3, w3) \<Rightarrow>
                  (if \<not> otp_submit env (w3 OtpSubmit) then (OtpAgain, tick OtpSubmit w3)
                   else
                     (case check_stops 10 (stop_check env) (tick OtpSubmit w3) of
                        (Inl e, w4) \<Rightarrow> (OtpRaise e, w4)
                      | (Inr u4, w4) \<Rightarrow> otp_response env w4)))))))"

text \<open>The loop \<^verbatim>\<open>for otp_retry in range(1, max_otp_retries + 1)\<close>, giving \<^verbatim>\<open>otp_success\<close>.\<close>

fun otp_retries :: "browser_env \<Rightarrow> int list \<Rightarrow> world \<Rightarrow> (exn + bool) \<times> world" where
  "otp_retries env [] w = (Inr False, w)"
| "otp_retries env (otp_retry # rest) w =
     (case otp_retry_once env w of
        (OtpDone, w1) \<Rightarrow> (Inr True, w1)
      | (OtpAgain, w1) \<Rightarrow>
          (if otp_retry < max_otp_retries then otp_retries env rest w1 else (Inr False, w1))
      | (OtpRaise e, w1) \<Rightarrow> (Inl e, w1))"

text \<open>How one iteration of the login loop ends.\<close>

datatype login_exit = LoginBreak | LoginContinue | LoginRaise exn

text \<open>\<^verbatim>\<open>if attempt < max_login_attempts: continue else: raise Exception(f"{what}{EMAIL}")\<close>\<close>

definition retry_or_fail :: "browser_env \<Rightarrow> int \<Rightarrow> string \<Rightarrow> world \<Rightarrow> login_exit \<times> world" where
  "retry_or_fail env attempt what w =
     (if attempt < max_login_attempts then (LoginContinue, w)
      else (LoginRaise (Exception (ascii what @ email_str env)), w))"

text \<open>After the OTP loop (bot.py 1266-1291).\<close>

definition after_otp :: "browser_env \<Rightarrow> int \<Rightarrow> bool \<Rightarrow> world \<Rightarrow> login_exit \<times> world" where
  "after_otp env attempt otp_success w =
     (case current_url env (w CurrentUrl) of
        Raises m \<Rightarrow> (LoginRaise (Exception m), tick CurrentUrl w)
      | Gives current_url_after_otp \<Rightarrow>
          (if otp_success \<or> (\<not> py_in login_html current_url_after_otp
                             \<and> \<not> py_in login_mfa current_url_after_otp)
           then (LoginBreak, tick CurrentUrl w)
           else if py_in login_mfa current_url_after_otp then
             retry_or_fail env attempt
               ''Authentication failed after 3 attempts (OTP processing failed) for email: ''
               (tick CurrentUrl w)
           else
             retry_or_fail env attempt
               ''Authentication failed after 3 attempts (including OTP failures) for email: ''
               (tick CurrentUrl w)))"

text \<open>No OTP required, but the login is not successful (bot.py 1292-1320).\<close>

definition without_otp :: "browser_env \<Rightarrow> int \<Rightarrow> world \<Rightarrow> login_exit \<times> world" where
  "without_otp env attempt w =
     (case current_url env (w CurrentUrl) of
        Raises m \<Rightarrow> (LoginRaise (Exception m), tick CurrentUrl w)
      | Gives url \<Rightarrow>
          (if py_in login_html url then
             (case check_login_status_message env (tick CurrentUrl w LoginStatusMessage) of
                (status_message, is_failure) \<Rightarrow>
                  (if is_failure then
                     retry_or_fail env attempt
                       ''Authentication failed after 3 attempts for email: ''
                       (tick LoginStatusMessage (tick CurrentUrl w))
                   else
                     retry_or_fail env attempt
                       ''Login verification failed after 3 attempts for email: ''
                       (tick LoginStatusMessage (tick CurrentUrl w))))
           else (LoginBreak, tick CurrentUrl w)))"

text \<open>
  \<^verbatim>\<open>"login-mfa" in driver.current_url or <passcode word> in driver.page_source\<close>
  (bot.py 1143): the page source is read only when the URL test fails.
\<close>

definition otp_required :: "browser_env \<Rightarrow> world \<Rightarrow> (exn + bool) \<times> world" where
  "otp_required env w =
     (case current_url env (w CurrentUrl) of
        Raises m \<Rightarrow> (Inl (Exception m), tick CurrentUrl w)
      | Gives url \<Rightarrow>
          (if py_in login_mfa url then (Inr True, tick CurrentUrl w)
           else
             (case page_source env (tick CurrentUrl w PageSource) of
                Raises m \<Rightarrow> (Inl (Exception m), tick PageSource (tick CurrentUrl w))
              | Gives src \<Rightarrow> (Inr (py_in passcode_word src), tick PageSource (tick CurrentUrl w)))))"

text \<open>One login attempt (bot.py 1117-1320).\<close>

definition login_attempt :: "browser_env \<Rightarrow> int \<Rightarrow> world \<Rightarrow> login_exit \<times> world" where
  "login_attempt env attempt w =
     (case check_stop (stop_check env) w of
        (Inl e, w1) \<Rightarrow> (LoginRaise e, w1)
      | (Inr u1, w1) \<Rightarrow>
     (case attempt_login_with_captcha env (w1 LoginAttempt) of
        LoginStop \<Rightarrow> (LoginRaise StopIteration, tick LoginAttempt w1)
      | LoginTuple success needs_retry \<Rightarrow>
          (if success then (LoginBreak, tick LoginAttempt w1)
           else if needs_retry then
             retry_or_fail env attempt ''Authentication failed after 3 attempts for email: ''
               (tick LoginAttempt w1)
           else
             (case check_stop (stop_check env) (tick LoginAttempt w1) of
                (Inl e, w2) \<Rightarrow> (LoginRaise e, w2)
              | (Inr u2, w2) \<Rightarrow>
             (case otp_required env w2 of
                (Inl e, w3) \<Rightarrow> (LoginRaise e, w3)
              | (Inr True, w3) \<Rightarrow>
                  (case otp_retries env [1..max_otp_retries] w3 of
                     (Inl e, w4) \<Rightarrow> (LoginRaise e, w4)
                   | (Inr otp_success, w4) \<Rightarrow> after_otp env attempt otp_success w4)
              | (Inr False, w3) \<Rightarrow> without_otp env attempt w3)))))"

text \<open>
  The loop \<^verbatim>\<open>for attempt in range(1, max_login_attempts + 1)\<close>; \<^verbatim>\<open>login_success\<close> is
  not read after the loop.
\<close>

fun login_attempts :: "browser_env \<Rightarrow> int list \<Rightarrow> world \<Rightarrow> (exn + unit) \<times> world" where
  "login_attempts env [] w = (Inr (), w)"
| "login_attempts env (attempt # rest) w =
     (case login_attempt env attempt w of
        (LoginBreak, w1) \<Rightarrow> (Inr (), w1)
      | (LoginContinue, w1) \<Rightarrow> login_attempts env rest w1
      | (LoginRaise e, w1) \<Rightarrow> (Inl e, w1))"

text \<open>The final verification of the login (bot.py 1322-1347).\<close>

definition verify_login :: "browser_env \<Rightarrow> world \<Rightarrow> (exn + unit) \<times> world" where
  "verify_login env w =
     (case current_url env (w CurrentUrl) of
        Raises m \<Rightarrow> (Inl (Exception m), tick CurrentUrl w)
      | Gives logged_url \<Rightarrow>
     (case current_url env (tick CurrentUrl w CurrentUrl) of
        Raises m \<Rightarrow> (Inl (Exception m), tick CurrentUrl (tick CurrentUrl w))
      | Gives url \<Rightarrow>
     (let w1 = tick CurrentUrl (tick CurrentUrl w) in
      if py_in login_html url \<or> py_in login_mfa url then
        (case check_login_status_message env (w1 LoginStatusMessage) of
           (status_message, is_failure) \<Rightarrow>
             (if is_failure then
                (Inl (Exception (ascii ''Authentication failed - still on login page after all attempts for email: ''
                        @ email_str env)), tick LoginStatusMessage w1)
              else
                (case page_source env (w1 PageSource) of
                   Raises m \<Rightarrow> (Inl (Exception m), tick PageSource (tick LoginStatusMessage w1))
                 | Gives src \<Rightarrow>
                     (if py_in auth_failed_word src then
                        (Inl (Exception (ascii ''Authentication failed - still on login page after all attempts for email: ''
                                @ email_str env)), tick PageSource (tick LoginStatusMessage w1))
                      else
                        (Inl (Exception (ascii ''Login verification failed - still on login page after all attempts for email: ''
                                @ email_str env)), tick PageSource (tick LoginStatusMessage w1))))))
      else
        (case check_login_status_message env (w1 LoginStatusMessage) of
           (status_message, is_failure) \<Rightarrow>
             (if truthy status_message \<and> is_failure then
                (Inl (Exception (ascii ''Authentication failed after all attempts for email: ''
                        @ email_str env)), tick LoginStatusMessage w1)
              else (Inr (), tick LoginStatusMessage w1))))))"

text \<open>Going to the application page (bot.py 1352-1369); nothing is caught here.\<close>

definition open_apply_page :: "browser_env \<Rightarrow> world \<Rightarrow> (exn + unit) \<times> world" where
  "open_apply_page env w =
     (case current_url env (w CurrentUrl) of
        Raises m \<Rightarrow> (Inl (Exception m), tick CurrentUrl w)
      | Gives url \<Rightarrow>
          (case (if \<not> py_in apply_html url then
                   (case driver_get env (tick CurrentUrl w DriverGet) of
                      Raises m \<Rightarrow> (Inl (Exception m), tick DriverGet (tick CurrentUrl w))
                    | Gives u \<Rightarrow> check_stops 5 (stop_check env) (tick DriverGet (tick CurrentUrl w)))
                 else check_stop (stop_check env) (tick CurrentUrl w)) of
             (Inl e, w1) \<Rightarrow> (Inl e, w1)
           | (Inr u1, w1) \<Rightarrow> check_stop (stop_check env) w1))"

text \<open>
  The reload cascade of the pop04 loop of \<^verbatim>\<open>lottery_begin\<close> (bot.py 1408-1477): four
  mechanisms. After \<^verbatim>\<open>driver.refresh()\<close> the wait loop reads the URL until it can be
  read (1414-1422), and the URL is read once more (1424).
\<close>

fun wait_for_reload :: "nat \<Rightarrow> browser_env \<Rightarrow> world \<Rightarrow> (exn + unit) \<times> world" where
  "wait_for_reload 0 env w = (Inr (), w)"
| "wait_for_reload (Suc n) env w =
     (case check_stop (stop_check env) w of
        (Inl e, w1) \<Rightarrow> (Inl e, w1)
      | (Inr u, w1) \<Rightarrow>
          (case current_url env (w1 CurrentUrl) of
             Raises m \<Rightarrow> wait_for_reload n env (tick CurrentUrl w1)
           | Gives url \<Rightarrow> (Inr (), tick CurrentUrl w1)))"

definition begin_reload_via_script2 :: "browser_env \<Rightarrow> world \<Rightarrow> bool \<times> world" where
  "begin_reload_via_script2 env w =
     (case execute_script env (w ExecuteScript) of
        Raises m \<Rightarrow> (False, tick ExecuteScript w)
      | Gives u \<Rightarrow>
          (case check_stops 6 (stop_check env) (tick ExecuteScript w) of
             (Inl e, w1) \<Rightarrow> (False, w1)
           | (Inr u1, w1) \<Rightarrow> (True, w1)))"

definition begin_reload_via_script :: "browser_env \<Rightarrow> world \<Rightarrow> bool \<times> world" where
  "begin_reload_via_script env w =
     (case execute_script env (w ExecuteScript) of
        Raises m \<Rightarrow> begin_reload_via_script2 env (tick ExecuteScript w)
      | Gives u \<Rightarrow>
          (case check_stops 6 (stop_check env) (tick ExecuteScript w) of
             (Inl e, w1) \<Rightarrow> begin_reload_via_script2 env w1
           | (Inr u1, w1) \<Rightarrow> (True, w1)))"

definition begin_reload_via_get :: "browser_env \<Rightarrow> world \<Rightarrow> bool \<times> world" where
  "begin_reload_via_get env w =
     (case current_url env (w CurrentUrl) of
        Raises m \<Rightarrow> begin_reload_via_script env (tick CurrentUrl w)
      | Gives url \<Rightarrow>
          (case driver_get env (tick CurrentUrl w DriverGet) of
             Raises m \<Rightarrow> begin_reload_via_script env (tick DriverGet (tick CurrentUrl w))
           | Gives u \<Rightarrow>
               (case check_stops 6 (stop_check env) (tick DriverGet (tick CurrentUrl w)) of
                  (Inl e, w1) \<Rightarrow> begin_reload_via_script env w1
                | (Inr u1, w1) \<Rightarrow> (True, w1))))"

definition begin_reload_page :: "browser_env \<Rightarrow> world \<Rightarrow> bool \<times> world" where
  "begin_reload_page env w =
     (case driver_refresh env (w DriverRefresh) of
        Raises m \<Rightarrow> begin_reload_via_get env (tick DriverRefresh w)
      | Gives u \<Rightarrow>
          (case check_stop (stop_check env) (tick DriverRefresh w) of
             (Inl e, w1) \<Rightarrow> begin_reload_via_get env w1
           | (Inr u1, w1) \<Rightarrow>
               (case wait_for_reload 5 env w1 of
                  (Inl e, w2) \<Rightarrow> begin_reload_via_get env w2
                | (Inr u2, w2) \<Rightarrow>
                    (case current_url env (w2 CurrentUrl) of
                       Raises m \<Rightarrow> begin_reload_via_get env (tick CurrentUrl w2)
                     | Gives current_url_after \<Rightarrow> (True, tick CurrentUrl w2)))))"

text \<open>
  The closing of a pop04 that carries no exception message (bot.py 1557-1602): a close
  attempt and, when it succeeded, one more lookup to verify; nothing escapes. The first
  method (1568) calls \<^verbatim>\<open>wait.until(.., timeout=5)\<close>, which raises \<^verbatim>\<open>TypeError\<close>, so the
  attempt is the one of the second method (1576-1582), a click on a control found in the
  overlay.
\<close>

definition close_normal_pop04 :: "browser_env \<Rightarrow> world \<Rightarrow> world" where
  "close_normal_pop04 env w =
     (case close_popup env w of
        (True, w1) \<Rightarrow> tick (PopupLook Pop04) w1
      | (False, w1) \<Rightarrow> w1)"

text \<open>
  The pop04 loop of \<^verbatim>\<open>lottery_begin\<close> (bot.py 1371-1622), giving \<^verbatim>\<open>reload_attempt\<close> and
  \<^verbatim>\<open>pop04_reloaded\<close>. Only the \<^verbatim>\<open>check_stop()\<close> at the head of the loop (1378) is outside
  every \<^verbatim>\<open>try\<close>; an exception raised further down, a stop included, is caught by
  \<^verbatim>\<open>except Exception\<close> (1603), which leaves the loop. The close attempt of that clause
  (1609) calls \<^verbatim>\<open>wait.until(.., timeout=5)\<close>; \<^verbatim>\<open>WebDriverWait.until\<close> takes no such keyword,
  so the call raises \<^verbatim>\<open>TypeError\<close> before the page is touched, and the error is caught at
  1612. The close attempts after a reload (1503, 1515, 1526, 1550) pass no keyword.
\<close>

function begin_pop04_loop ::
  "browser_env \<Rightarrow> int \<Rightarrow> int \<Rightarrow> bool \<Rightarrow> world \<Rightarrow> (exn + int \<times> bool) \<times> world" where
  "begin_pop04_loop env max_reload_attempts reload_attempt pop04_reloaded w =
     (if reload_attempt < max_reload_attempts then
        (case check_stop (stop_check env) w of
           (Inl e, w1) \<Rightarrow> (Inl e, w1)
         | (Inr u1, w1) \<Rightarrow>
        (case popup_look env Pop04 (w1 (PopupLook Pop04)) of
           LookRaises \<Rightarrow> (Inr (reload_attempt + 1, pop04_reloaded), tick (PopupLook Pop04) w1)
         | NotShown \<Rightarrow> (Inr (reload_attempt + 1, pop04_reloaded), tick (PopupLook Pop04) w1)
         | Shown None \<Rightarrow> (Inr (reload_attempt + 1, pop04_reloaded), tick (PopupLook Pop04) w1)
         | Shown (Some pop04_message_text) \<Rightarrow>
             (if py_in (exception_text Pop04) pop04_message_text then
                (case check_stop (stop_check env) (tick (PopupLook Pop04) w1) of
                   (Inl e, w2) \<Rightarrow> (Inr (reload_attempt + 1, pop04_reloaded), w2)
                 | (Inr u2, w2) \<Rightarrow>
                (case current_url env (w2 CurrentUrl) of
                   Raises m \<Rightarrow> (Inr (reload_attempt + 1, pop04_reloaded), tick CurrentUrl w2)
                 | Gives current_url_before \<Rightarrow>
                (case begin_reload_page env (tick CurrentUrl w2) of
                   (True, w3) \<Rightarrow>
                     (case check_stops 2 (stop_check env) w3 of
                        (Inl e, w4) \<Rightarrow> (Inr (reload_attempt + 1, True), w4)
                      | (Inr u4, w4) \<Rightarrow>
                          (case popup_look env Pop04 (w4 (PopupLook Pop04)) of
                             LookRaises \<Rightarrow> (Inr (reload_attempt + 1, True), tick (PopupLook Pop04) w4)
                           | NotShown \<Rightarrow> (Inr (reload_attempt + 1, True), tick (PopupLook Pop04) w4)
                           | Shown None \<Rightarrow>
                               (Inr (reload_attempt + 1, True),
                                snd (close_popup env (tick (PopupLook Pop04) w4)))
                           | Shown (Some pop04_message_text_check) \<Rightarrow>
                               (if py_in (exception_text Pop04) pop04_message_text_check then
                                  (if reload_attempt + 1 < max_reload_attempts then
                                     begin_pop04_loop env max_reload_attempts (reload_attempt + 1) True
                                       (tick (PopupLook Pop04) w4)
                                   else
                                     (Inr (reload_attempt + 1, True),
                                      snd (close_popup env (tick (PopupLook Pop04) w4))))
                                else
                                  (Inr (reload_attempt + 1, True),
                                   snd (close_popup env (tick (PopupLook Pop04) w4))))))
                 | (False, w3) \<Rightarrow>
                     (if reload_attempt + 1 < max_reload_attempts then
                        begin_pop04_loop env max_reload_attempts (reload_attempt + 1) pop04_reloaded w3
                      else
                        (Inr (reload_attempt + 1, pop04_reloaded), snd (close_popup env w3))))))
              else
                (Inr (reload_attempt + 1, pop04_reloaded),
                 close_normal_pop04 env (tick (PopupLook Pop04) w1)))))
      else (Inr (reload_attempt, pop04_reloaded), w))"
  by pat_completeness auto
termination
  by (relation "measure (\<lambda>(env, max_reload_attempts, reload_attempt, pop04_reloaded, w).
        nat (max_reload_attempts - reload_attempt))") auto

declare begin_pop04_loop.simps [simp del]

text \<open>
  The constant of bot.py 1372: \<^verbatim>\<open>max_reload_attempts = 6\<close>, with the comment
  \<^verbatim>\<open># Maximum number of reload attempts (changed from 6 to 5)\<close>.
\<close>

definition begin_max_reload_attempts :: int where
  "begin_max_reload_attempts = 6"

text \<open>
  The final check of pop04 before the lottery processing (bot.py 1627-1652), all of it
  inside \<^verbatim>\<open>try\<close>: one lookup. For a displayed overlay the close attempt (1636) calls
  \<^verbatim>\<open>wait.until(.., timeout=5)\<close>, which raises \<^verbatim>\<open>TypeError\<close> before the page is touched; the
  error is caught at 1647, so nothing is clicked and the lookup at 1642 is not reached.
\<close>

definition final_pop04_check :: "browser_env \<Rightarrow> world \<Rightarrow> world" where
  "final_pop04_check env w =
     (case popup_look env Pop04 (w (PopupLook Pop04)) of
        Shown t \<Rightarrow> tick (PopupLook Pop04) w
      | NotShown \<Rightarrow> tick (PopupLook Pop04) w
      | LookRaises \<Rightarrow> tick (PopupLook Pop04) w)"

text \<open>
  The body of the \<^verbatim>\<open>try\<close> of \<^verbatim>\<open>lottery_begin\<close> (bot.py 1112-1682); \<open>selected\<close> is the
  global \<^verbatim>\<open>_selected_lotteries\<close>.
\<close>

definition lottery_begin_body ::
  "browser_env \<Rightarrow> int list \<Rightarrow> world \<Rightarrow> (exn + session_outcome) \<times> world" where
  "lottery_begin_body env selected w =
     (case login_attempts env [1..max_login_attempts] w of
        (Inl e, w1) \<Rightarrow> (Inl e, w1)
      | (Inr u1, w1) \<Rightarrow>
     (case verify_login env w1 of
        (Inl e, w2) \<Rightarrow> (Inl e, w2)
      | (Inr u2, w2) \<Rightarrow>
     (case open_apply_page env w2 of
        (Inl e, w3) \<Rightarrow> (Inl e, w3)
      | (Inr u3, w3) \<Rightarrow>
     (case begin_pop04_loop env begin_max_reload_attempts 0 False w3 of
        (Inl e, w4) \<Rightarrow> (Inl e, w4)
      | (Inr (reload_attempt, pop04_reloaded), w4) \<Rightarrow>
     (case check_stop (stop_check env) w4 of
        (Inl e, w5) \<Rightarrow> (Inl e, w5)
      | (Inr u5, w5) \<Rightarrow>
     (case (if pop04_reloaded then check_stops 2 (stop_check env) (final_pop04_check env w5)
            else check_stop (stop_check env) (final_pop04_check env w5)) of
        (Inl e, w6) \<Rightarrow> (Inl e, w6)
      | (Inr u6, w6) \<Rightarrow>
     (case ensure_apply_page env 5 w6 of
        (Inl e, w7) \<Rightarrow> (Inl e, w7)
      | (Inr u7, w7) \<Rightarrow>
     (case check_stop (stop_check env) w7 of
        (Inl e, w8) \<Rightarrow> (Inl e, w8)
      | (Inr u8, w8) \<Rightarrow> process_all_lotteries env (Some selected) w8))))))))"

text \<open>
  \<^verbatim>\<open>lottery_begin\<close> with its two \<^verbatim>\<open>except\<close> clauses (bot.py 1684-1701): a stop and any
  other exception both give an outcome with an empty result list.
\<close>

definition lottery_begin :: "browser_env \<Rightarrow> int list \<Rightarrow> world \<Rightarrow> session_outcome \<times> world" where
  "lottery_begin env selected w =
     (case lottery_begin_body env selected w of
        (Inr lottery_result, w1) \<Rightarrow> (lottery_result, w1)
      | (Inl StopIteration, w1) \<Rightarrow>
          (\<lparr> results = [], final_status = st_interrupted, message = msg_stopped_by_user \<rparr>, w1)
      | (Inl (Exception m), w1) \<Rightarrow>
          (\<lparr> results = [], final_status = st_failure,
              message = msg_login_error_prefix @ take 100 m \<rparr>, w1))"

section \<open>Auxiliary notions for stating the properties\<close>

text \<open>The stop predicate never asks to stop (or none is set).\<close>

definition never_stops :: "(nat \<Rightarrow> bool) option \<Rightarrow> bool" where
  "never_stops sc = (case sc of None \<Rightarrow> True | Some f \<Rightarrow> \<forall>k. f k)"

text \<open>The world after \<open>n\<close> calls of \<^verbatim>\<open>check_stop\<close> that did not raise.\<close>

definition after_checks :: "(nat \<Rightarrow> bool) option \<Rightarrow> nat \<Rightarrow> world \<Rightarrow> world" where
  "after_checks sc n w =
     (case sc of None \<Rightarrow> w | Some f \<Rightarrow> w(StopCheck := w StopCheck + n))"

text \<open>An overlay look that no longer shows the exception message of its class.\<close>

definition overlay_cleared :: "popup \<Rightarrow> overlay \<Rightarrow> bool" where
  "overlay_cleared p look =
     (case look of Shown (Some t) \<Rightarrow> \<not> py_in (exception_text p) t | _ \<Rightarrow> True)"

text \<open>No stop is requested and the browser's URL can always be read.\<close>

definition healthy :: "browser_env \<Rightarrow> bool" where
  "healthy env = (never_stops (stop_check env) \<and> (\<forall>k. \<exists>url. current_url env k = Gives url))"

text \<open>The entry recorded for an item whose label is already completed (bot.py 2133-2137).\<close>

definition completed_entry :: "int \<Rightarrow> lottery_result" where
  "completed_entry n = \<lparr> lottery = n, status = st_skipped_completed,
     reason = lottery_text n reason_completed \<rparr>"

text \<open>
  The final verdict as the specification words it: interrupted if any recorded status is
  interrupted; otherwise failure if any is failure, skipped (closed) or not existing;
  otherwise success if every one is success or skipped (completed); failure in any
  remaining case.
\<close>

definition spec_final_status :: "pystr list \<Rightarrow> pystr" where
  "spec_final_status statuses =
     (if st_interrupted \<in> set statuses then st_interrupted
      else if st_failure \<in> set statuses \<or> st_skipped_closed \<in> set statuses
              \<or> st_not_exist \<in> set statuses then st_failure
      else if list_all (\<lambda>s. s = st_success \<or> s = st_skipped_completed) statuses then st_success
      else st_failure)"

text \<open>
  Neither an entry of the local result list nor the local final status records an
  interruption.
\<close>

definition uninterrupted :: "orch_state \<Rightarrow> bool" where
  "uninterrupted st =
     (st_interrupted \<notin> set (map status (lottery_results st)) \<and> final_status_v st \<noteq> st_interrupted)"

text \<open>
  The states in which the batch goes back to the head of the \<^verbatim>\<open>while\<close> loop, in order:
  one per restart, whatever caused it.
\<close>

function restart_states :: "browser_env \<Rightarrow> int list \<Rightarrow> orch_state \<Rightarrow> world \<Rightarrow> orch_state list" where
  "restart_states env selected_lotteries st w =
     (if retry_attempt st < max_retry_attempts then
        (case one_pass env selected_lotteries st w of
           (Inl e, w1) \<Rightarrow> []
         | (Inr (Continue st1), w1) \<Rightarrow> st1 # restart_states env selected_lotteries st1 w1
         | (Inr (Break st1), w1) \<Rightarrow> [])
      else [])"
  by pat_completeness auto
termination
proof (relation "measure (\<lambda>(env, selected_lotteries, st, w).
          max_retry_attempts - retry_attempt st)", goal_cases)
  case 1
  show ?case by simp
next
  case (2 env selected_lotteries st w x y z st1)
  then have "one_pass env selected_lotteries st w = (Inr (Continue st1), y)"
    by simp
  from one_pass_continue [OF this] 2 show ?case
    by simp
qed

declare restart_states.simps [simp del]

text \<open>Every item that has an entry in the local result list is in the completed set.\<close>

definition settled :: "orch_state \<Rightarrow> bool" where
  "settled st = (lottery ` set (lottery_results st) \<subseteq> completed_lotteries st)"

text \<open>No status probe and no entry processing happened between two worlds.\<close>

definition items_untouched :: "world \<Rightarrow> world \<Rightarrow> bool" where
  "items_untouched w w' = (w' LotteryStatus = w LotteryStatus \<and> w' LotteryEntry = w LotteryEntry)"

section \<open>Concrete environments\<close>

text \<open>
  A provider that accepts the task and answers the result endpoint with
  processing, processing, ready (token \<^verbatim>\<open>T\<close>).
\<close>

definition processing_reply :: result_reply where
  "processing_reply = \<lparr> r_status = Some (ascii ''processing''), r_errorId = Some 0,
     r_errorCode = None, r_errorDescription = None, r_gRecaptchaResponse = None,
     r_token = None, r_repr = [] \<rparr>"

definition ready_reply :: "pystr \<Rightarrow> result_reply" where
  "ready_reply tok = \<lparr> r_status = Some (ascii ''ready''), r_errorId = Some 0,
     r_errorCode = None, r_errorDescription = None, r_gRecaptchaResponse = None,
     r_token = Some tok, r_repr = [] \<rparr>"

definition task_created :: create_reply where
  "task_created = \<lparr> c_errorId = Some 0, c_errorCode = None, c_errorDescription = None,
     c_taskId = Some 7, c_repr = [] \<rparr>"

definition provider_env :: captcha_env where
  "provider_env = \<lparr> c_stop_check = None, captcha_api_key = Some (ascii ''k''),
     extract_recaptcha_action = (\<lambda>k. None),
     create_task = (\<lambda>k task. Json task_created),
     task_result = (\<lambda>k task_id. Json (if k < 2 then processing_reply else ready_reply (ascii ''T''))) \<rparr>"



definition site_key_24 :: pystr where
  "site_key_24 = ascii ''6Lc0000000000000000000AA''"

text \<open>
  A browser session in which nothing goes wrong: no stop predicate, the first login
  attempt succeeds, the browser is on the application page, no overlay is displayed,
  every item is already completed.
\<close>

definition apply_url :: pystr where
  "apply_url = ascii ''https://www.pokemoncenter-online.com/lottery/apply.html''"

definition quiet_browser :: browser_env where
  "quiet_browser = \<lparr> stop_check = None, email = Some (ascii ''a@b.c''),
     current_url = (\<lambda>k. Gives apply_url),
     page_source = (\<lambda>k. Gives []),
     driver_get = (\<lambda>k. Gives ()),
     driver_refresh = (\<lambda>k. Gives ()),
     execute_script = (\<lambda>k. Gives ()),
     popup_look = (\<lambda>p k. NotShown),
     popup_close = (\<lambda>k. True),
     check_and_solve_captcha_on_apply_page = (\<lambda>k. False),
     check_lottery_status = (\<lambda>k n. (Some label_completed, True)),
     process_lottery_entry = (\<lambda>k n. EntryTrue),
     attempt_login_with_captcha = (\<lambda>k. LoginTuple True False),
     check_login_status_message = (\<lambda>k. (None, False)),
     get_otp_from_gmail = (\<lambda>k. OtpError []),
     otp_enter = (\<lambda>k. True),
     otp_submit = (\<lambda>k. True) \<rparr>"

text \<open>
  Item 1 is open on its first two probes (the check of the first pass and the
  re-verification after it) and completed from then on; its submission fails.
\<close>

definition retried_env :: browser_env where
  "retried_env = quiet_browser\<lparr>
     check_lottery_status :=
       (\<lambda>k n. if k < 2 then (Some label_open, True) else (Some label_completed, True)),
     process_lottery_entry := (\<lambda>k n. EntryFalse) \<rparr>"

text \<open>
  The first probe finds its item open and the submission asks for a reload; from the
  restart on, every probe finds the item closed.
\<close>

definition reload_then_closed_env :: browser_env where
  "reload_then_closed_env = quiet_browser\<lparr>
     check_lottery_status :=
       (\<lambda>k n. if k = 0 then (Some label_open, True) else (Some label_closed, True)),
     process_lottery_entry := (\<lambda>k n. EntryReloadNeeded) \<rparr>"

text \<open>
  The first two probes find their item open: the first submission asks for a reload,
  the second one, after the restart, succeeds. Later probes find the items completed.
\<close>

definition reload_then_success_env :: browser_env where
  "reload_then_success_env = quiet_browser\<lparr>
     check_lottery_status :=
       (\<lambda>k n. if k < 2 then (Some label_open, True) else (Some label_completed, True)),
     process_lottery_entry := (\<lambda>k n. if k = 0 then EntryReloadNeeded else EntryTrue) \<rparr>"

text \<open>
  pop04 carries the exception message on its second and third lookup (the first lookup
  of the handler is the one repeated after \<^verbatim>\<open>check_stop()\<close>) and is gone on the fourth.
\<close>

definition overlay_env :: browser_env where
  "overlay_env = quiet_browser\<lparr>
     popup_look := (\<lambda>p k. case p of
         Pop05 \<Rightarrow> NotShown
       | Pop04 \<Rightarrow> (if k = 1 \<or> k = 2 then Shown (Some (exception_text Pop04)) else NotShown)) \<rparr>"

text \<open>pop04 carries the exception message whenever it is looked at.\<close>

definition persistent_overlay_env :: browser_env where
  "persistent_overlay_env = quiet_browser\<lparr>
     popup_look := (\<lambda>p k. case p of Pop04 \<Rightarrow> Shown (Some (exception_text Pop04)) | Pop05 \<Rightarrow> NotShown) \<rparr>"

text \<open>
  Item 2 is open, the others completed; the stop predicate answers "go on" twelve times,
  which are the calls of \<^verbatim>\<open>check_stop\<close> made up to the submission of item 2, and the
  submission of item 2 observes the stop.
\<close>

definition interrupted_env :: browser_env where
  "interrupted_env = quiet_browser\<lparr>
     stop_check := Some (\<lambda>k. k < 12),
     check_lottery_status :=
       (\<lambda>k n. if n = 2 then (Some label_open, True) else (Some label_completed, True)),
     process_lottery_entry := (\<lambda>k n. EntryStop) \<rparr>"

text \<open>Every login attempt is answered by the explicit authentication failure.\<close>

definition rejected_login_env :: browser_env where
  "rejected_login_env = quiet_browser\<lparr>
     attempt_login_with_captcha := (\<lambda>k. LoginTuple False True) \<rparr>"

section \<open>Properties of the environment model\<close>

lemma check_stop_never:
  "never_stops sc \<Longrightarrow> check_stop sc w = (Inr (), after_checks sc (Suc 0) w)"
  by (auto simp: never_stops_def check_stop_def after_checks_def tick_def split: option.splits)

lemma after_checks_add [simp]:
  "after_checks sc m (after_checks sc n w) = after_checks sc (n + m) w"
  by (auto simp: after_checks_def split: option.splits)

lemma after_checks_other [simp]:
  "c \<noteq> StopCheck \<Longrightarrow> after_checks sc n w c = w c"
  by (auto simp: after_checks_def split: option.splits)

lemma check_stops_never:
  "never_stops sc \<Longrightarrow> check_stops n sc w = (Inr (), after_checks sc n w)"
proof (induction n arbitrary: w)
  case 0
  then show ?case by (auto simp: after_checks_def split: option.splits)
next
  case (Suc n)
  then show ?case by (simp add: check_stop_never)
qed

lemma tick_same [simp]: "tick c w c = Suc (w c)"
  by (simp add: tick_def)

lemma tick_other [simp]: "d \<noteq> c \<Longrightarrow> tick c w d = w d"
  by (simp add: tick_def)

section \<open>The CAPTCHA solver\<close>

lemma poll_processing:
  assumes "never_stops (c_stop_check env)"
      and "task_result env (w TaskResult) tid = Json r"
      and "r_status r = Some (ascii ''processing'')"
  shows "poll_results (Suc n) env tid attempt max_retries w =
         poll_results n env tid attempt max_retries (tick TaskResult (after_checks (c_stop_check env) 2 w))"
  using assms by (simp add: check_stop_never numeral_2_eq_2)

lemma ascii_ready_ne: "ascii ''ready'' \<noteq> ascii ''processing''"
  by (simp add: ascii_def)

lemma poll_ready:
  assumes "never_stops (c_stop_check env)"
      and "task_result env (w TaskResult) tid = Json r"
      and "r_status r = Some (ascii ''ready'')"
      and "\<not> truthy (r_gRecaptchaResponse r)" and "r_token r = Some T" and "T \<noteq> []"
  shows "poll_results (Suc n) env tid attempt max_retries w =
         (Solved T, tick TaskResult (after_checks (c_stop_check env) 2 w))"
  using assms by (simp add: check_stop_never ascii_ready_ne py_or_def numeral_2_eq_2)

lemma poll_three:
  assumes run: "never_stops (c_stop_check env)"
      and p1: "task_result env (w TaskResult) tid = Json r1" "r_status r1 = Some (ascii ''processing'')"
      and p2: "task_result env (Suc (w TaskResult)) tid = Json r2" "r_status r2 = Some (ascii ''processing'')"
      and p3: "task_result env (Suc (Suc (w TaskResult))) tid = Json r3" "r_status r3 = Some (ascii ''ready'')"
              "\<not> truthy (r_gRecaptchaResponse r3)" "r_token r3 = Some T" "T \<noteq> []"
  shows "\<exists>w'. poll_results (Suc (Suc (Suc n))) env tid attempt max_retries w = (Solved T, w')
            \<and> w' TaskResult = w TaskResult + 3 \<and> w' CreateTask = w CreateTask"
proof -
  let ?sc = "c_stop_check env"
  let ?w1 = "tick TaskResult (after_checks ?sc 2 w)"
  let ?w2 = "tick TaskResult (after_checks ?sc 2 ?w1)"
  let ?w3 = "tick TaskResult (after_checks ?sc 2 ?w2)"
  have s1: "poll_results (Suc (Suc (Suc n))) env tid attempt max_retries w =
            poll_results (Suc (Suc n)) env tid attempt max_retries ?w1"
    using run p1 by (rule poll_processing)
  have s2: "poll_results (Suc (Suc n)) env tid attempt max_retries ?w1 =
            poll_results (Suc n) env tid attempt max_retries ?w2"
    using run p2 by (intro poll_processing) simp_all
  have s3: "poll_results (Suc n) env tid attempt max_retries ?w2 = (Solved T, ?w3)"
    using run p3 by (intro poll_ready) simp_all
  have "?w3 TaskResult = w TaskResult + 3" "?w3 CreateTask = w CreateTask" by simp_all
  with s1 s2 s3 show ?thesis by simp
qed

lemma solve_attempt_three:
  assumes run: "never_stops (c_stop_check env)"
      and submit: "create_task env (w CreateTask) task = Json cr"
      and cr: "dict_get (c_errorId cr) 0 = 0" "c_taskId cr = Some tid" "tid \<noteq> 0"
      and p1: "task_result env (w TaskResult) tid = Json r1" "r_status r1 = Some (ascii ''processing'')"
      and p2: "task_result env (Suc (w TaskResult)) tid = Json r2" "r_status r2 = Some (ascii ''processing'')"
      and p3: "task_result env (Suc (Suc (w TaskResult))) tid = Json r3" "r_status r3 = Some (ascii ''ready'')"
              "\<not> truthy (r_gRecaptchaResponse r3)" "r_token r3 = Some T" "T \<noteq> []"
  shows "\<exists>w'. solve_attempt env task attempt max_retries w = (Returned T, w')
            \<and> w' TaskResult = w TaskResult + 3 \<and> w' CreateTask = w CreateTask + 1"
proof -
  let ?w2 = "tick CreateTask (after_checks (c_stop_check env) (Suc 0) w)"
  have n60: "(60::nat) = Suc (Suc (Suc 57))" by simp
  have tr: "?w2 TaskResult = w TaskResult" by simp
  obtain w' where w': "poll_results 60 env tid attempt max_retries ?w2 = (Solved T, w')"
      "w' TaskResult = ?w2 TaskResult + 3" "w' CreateTask = ?w2 CreateTask"
    unfolding n60 using poll_three [of env ?w2 tid r1 r2 r3 T 57 attempt max_retries] run p1 p2 p3
    by (auto simp only: tr)
  show ?thesis
    using run submit cr w' by (simp add: solve_attempt_def check_stop_never)
qed

text \<open>
  Claim C7, as amended. When the result endpoint answers processing, processing and then
  ready with the token T, \<^verbatim>\<open>solve_recaptcha\<close> returns T, having submitted the task once
  and polled the result endpoint exactly three times: the two polls answered
  processing and the poll answered ready.
\<close>

theorem solve_recaptcha_three_polls:
  assumes key: "truthy (captcha_api_key env)"
      and sk: "20 \<le> length site_key"
      and mr: "1 \<le> max_retries"
      and run: "never_stops (c_stop_check env)"
      and submit: "\<And>task. create_task env (w CreateTask) task = Json cr"
      and cr: "dict_get (c_errorId cr) 0 = 0" "c_taskId cr = Some tid" "tid \<noteq> 0"
      and p1: "task_result env (w TaskResult) tid = Json r1" "r_status r1 = Some (ascii ''processing'')"
      and p2: "task_result env (Suc (w TaskResult)) tid = Json r2" "r_status r2 = Some (ascii ''processing'')"
      and p3: "task_result env (Suc (Suc (w TaskResult))) tid = Json r3" "r_status r3 = Some (ascii ''ready'')"
              "\<not> truthy (r_gRecaptchaResponse r3)" "r_token r3 = Some T" "T \<noteq> []"
  shows "\<exists>w'. solve_recaptcha env site_key url driver max_retries min_score page_action w = (Inr T, w')
            \<and> w' TaskResult = w TaskResult + 3 \<and> w' CreateTask = w CreateTask + 1"
proof -
  have att: "[1..max_retries] = 1 # [2..max_retries]"
    using mr by (simp add: upto_rec1)
  have sk': "site_key \<noteq> []" "\<not> length site_key < 20"
    using sk by auto
  have step: "\<exists>w'. solve_attempts env task max_retries (1 # [2..max_retries]) w1 = (Inr T, w')
            \<and> w' TaskResult = w TaskResult + 3 \<and> w' CreateTask = w CreateTask + 1"
    if "w1 TaskResult = w TaskResult" "w1 CreateTask = w CreateTask" for task w1
  proof -
    have a: "create_task env (w1 CreateTask) task = Json cr"
      using submit that by simp
    have b: "task_result env (w1 TaskResult) tid = Json r1"
      "task_result env (Suc (w1 TaskResult)) tid = Json r2"
      "task_result env (Suc (Suc (w1 TaskResult))) tid = Json r3"
      using p1 p2 p3 that by simp_all
    obtain w' where "solve_attempt env task 1 max_retries w1 = (Returned T, w')"
        "w' TaskResult = w1 TaskResult + 3" "w' CreateTask = w1 CreateTask + 1"
      using solve_attempt_three [OF run a cr b(1) p1(2) b(2) p2(2) b(3) p3(2-), of 1 max_retries]
      by blast
    then show ?thesis using that by simp
  qed
  show ?thesis
  proof (cases "driver \<and> \<not> truthy page_action")
    case True
    then show ?thesis
      using key sk' att step [of "tick ExtractAction w"]
      by (simp add: solve_recaptcha_def Let_def del: solve_attempts.simps)
  next
    case False
    then have "\<not> (driver \<and> \<not> truthy page_action)" by simp
    then show ?thesis
      using key sk' att step [of w]
      by (auto simp add: solve_recaptcha_def Let_def simp del: solve_attempts.simps)
  qed
qed

text \<open>
  The theorem at the provider answering processing, processing, ready: one submission,
  three polls.
\<close>

theorem solve_recaptcha_three_polls_witness:
  "truthy (captcha_api_key provider_env) \<and> never_stops (c_stop_check provider_env)
   \<and> (\<exists>w'. solve_recaptcha provider_env site_key_24 (ascii ''u'') False 5 float_0_9 None world0
             = (Inr (ascii ''T''), w')
          \<and> w' TaskResult = 3 \<and> w' CreateTask = 1)"
  using solve_recaptcha_three_polls [of provider_env site_key_24 5 world0 task_created 7
      processing_reply processing_reply "ready_reply (ascii ''T'')" "ascii ''T''"
      "ascii ''u''" False float_0_9 None]
  by (simp add: provider_env_def site_key_24_def task_created_def processing_reply_def
      ready_reply_def world0_def truthy_def never_stops_def dict_get_def ascii_def)

text \<open>
  Claim C7 as stated fails: on the reply sequence processing, processing, ready the
  token is returned after three polls of the result endpoint, not two.
\<close>

theorem solve_recaptcha_two_polls_counterexample:
  "fst (solve_recaptcha provider_env site_key_24 (ascii ''u'') False 5 float_0_9 None world0)
     = Inr (ascii ''T'')
   \<and> snd (solve_recaptcha provider_env site_key_24 (ascii ''u'') False 5 float_0_9 None world0)
       TaskResult = 3
   \<and> snd (solve_recaptcha provider_env site_key_24 (ascii ''u'') False 5 float_0_9 None world0)
       TaskResult \<noteq> 2"
  by code_simp




section \<open>Evaluation of concrete runs\<close>

text \<open>The defining equations a concrete run is evaluated with.\<close>

lemmas literal_defs =
  ascii_def label_open_def label_completed_def label_closed_def st_success_def st_failure_def
  st_skipped_closed_def st_skipped_completed_def st_not_exist_def st_interrupted_def
  st_unknown_def lottery_word_def reason_not_exist_def reason_closed_def reason_completed_def
  reason_success_def reason_failure_def reason_interrupted_def reason_error_def
  reason_unknown_def reason_reopened_def reason_final_open_def part_closed_def
  part_completed_def msg_processing_error_def msg_interrupted_prefix_def
  msg_failure_prefix_def msg_separator_def msg_final_open_def msg_stopped_by_user_def
  msg_login_error_prefix_def passcode_word_def auth_failed_word_def apply_url_def
  apply_html_def login_html_def login_mfa_def exception_text_def

lemmas world_defs =
  check_stop_def tick_def world0_def truthy_def dict_get_def py_or_def close_popup_def

lemmas handler_defs =
  reload_via_script_def reload_via_get_def reload_page_def reload_until_cleared.simps
  check_pop04_displayed_def check_pop04_def check_and_handle_pop_exceptions_def

lemmas orch_defs =
  lottery_text_def str_int_def digits_of.simps max_retry_attempts_def append_result_def
  next_lottery_def restart_after_reload_def ensure_apply_page_def return_to_apply_page_def
  process_open_item_def process_item_def items_loop.simps no_flags_def
  determine_final_status_def completed_check_def final_status_block_def after_pass_def
  one_pass_def retry_loop.simps effective_selection_def initial_state_def
  process_all_lotteries_def set_selected_lotteries_def Let_def

lemmas begin_defs =
  email_str_def max_login_attempts_def max_otp_retries_def otp_response_def
  otp_retry_once_def retry_or_fail_def after_otp_def without_otp_def otp_required_def
  login_attempt_def verify_login_def open_apply_page_def begin_reload_via_script2_def
  begin_reload_via_script_def begin_reload_via_get_def begin_reload_page_def
  close_normal_pop04_def begin_pop04_loop.simps begin_max_reload_attempts_def
  final_pop04_check_def lottery_begin_body_def lottery_begin_def upto_rec1

lemmas restart_defs = restart_states.simps settled_def

lemma check_stops_numeral:
  "check_stops (numeral n) sc w =
     (case check_stop sc w of
        (Inl e, w') \<Rightarrow> (Inl e, w')
      | (Inr u, w') \<Rightarrow> check_stops (pred_numeral n) sc w')"
  by (simp add: numeral_eq_Suc)

lemma wait_for_reload_numeral:
  "wait_for_reload (numeral n) env w =
     (case check_stop (stop_check env) w of
        (Inl e, w1) \<Rightarrow> (Inl e, w1)
      | (Inr u, w1) \<Rightarrow>
          (case current_url env (w1 CurrentUrl) of
             Raises m \<Rightarrow> wait_for_reload (pred_numeral n) env (tick CurrentUrl w1)
           | Gives url \<Rightarrow> (Inr (), tick CurrentUrl w1)))"
  by (simp add: numeral_eq_Suc)

section \<open>The popup recovery handler\<close>

lemma starts_with_refl: "starts_with xs xs"
  by (induction xs) auto

lemma py_in_refl: "py_in xs xs"
  by (cases xs) (auto simp: starts_with_refl)

lemma reload_page_refresh:
  assumes "never_stops (stop_check env)" and "driver_refresh env (w DriverRefresh) = Gives u"
  shows "reload_page env w = (True, after_checks (stop_check env) 6 (tick DriverRefresh w))"
  using assms by (simp add: reload_page_def check_stops_never)

lemma reload_cleared:
  assumes run: "never_stops (stop_check env)"
      and lt: "reload_attempt < max_reload_attempts"
      and url: "current_url env (w CurrentUrl) = Gives url"
      and refresh: "driver_refresh env (w DriverRefresh) = Gives u"
      and look: "overlay_cleared p (popup_look env p (w (PopupLook p)))"
  shows "\<exists>w'. reload_until_cleared env p max_reload_attempts reload_attempt w = (Some True, w')
           \<and> w' DriverRefresh = w DriverRefresh + 1 \<and> w' DriverGet = w DriverGet
           \<and> w' ExecuteScript = w ExecuteScript"
proof -
  let ?sc = "stop_check env"
  let ?w1 = "tick CurrentUrl (after_checks ?sc (Suc 0) w)"
  have rp: "reload_page env ?w1 = (True, after_checks ?sc 6 (tick DriverRefresh ?w1))"
    using run refresh by (intro reload_page_refresh) simp_all
  show ?thesis
    using run lt url look
    apply (subst reload_until_cleared.simps)
    apply (simp add: check_stop_never rp close_popup_def overlay_cleared_def
        split: overlay.splits option.splits)
    done
qed

lemma reload_persists:
  assumes run: "never_stops (stop_check env)"
      and lt: "reload_attempt + 1 < max_reload_attempts"
      and url: "current_url env (w CurrentUrl) = Gives url"
      and refresh: "driver_refresh env (w DriverRefresh) = Gives u"
      and look: "popup_look env p (w (PopupLook p)) = Shown (Some (exception_text p))"
  shows "\<exists>w1. reload_until_cleared env p max_reload_attempts reload_attempt w
              = reload_until_cleared env p max_reload_attempts (reload_attempt + 1) w1
           \<and> w1 DriverRefresh = w DriverRefresh + 1 \<and> w1 DriverGet = w DriverGet
           \<and> w1 ExecuteScript = w ExecuteScript \<and> w1 (PopupLook p) = w (PopupLook p) + 1
           \<and> w1 CurrentUrl = w CurrentUrl + 1"
proof -
  let ?sc = "stop_check env"
  let ?w1 = "tick CurrentUrl (after_checks ?sc (Suc 0) w)"
  have rp: "reload_page env ?w1 = (True, after_checks ?sc 6 (tick DriverRefresh ?w1))"
    using run refresh by (intro reload_page_refresh) simp_all
  show ?thesis
    using run lt url look
    apply (subst reload_until_cleared.simps)
    apply (simp add: check_stop_never rp py_in_refl)
    apply (rule exI [where x = "tick (PopupLook p) (after_checks ?sc (Suc 0) (after_checks ?sc 6 (tick DriverRefresh ?w1)))"])
    apply simp
    done
qed

text \<open>
  Claim C6. When pop05 is not displayed, pop04 shows exactly the exception message on two
  consecutive checks (the handler's first check and the check after the first reload)
  and no longer shows it on the third, and no stop is requested and \<^verbatim>\<open>driver.refresh()\<close>
  works, the handler performs exactly two reloads and returns \<^verbatim>\<open>True\<close>.
\<close>

theorem two_matches_two_reloads:
  assumes run: "never_stops (stop_check env)"
      and max: "2 \<le> max_reload_attempts"
      and urls: "\<And>k. \<exists>url. current_url env k = Gives url"
      and refresh: "driver_refresh env (w DriverRefresh) = Gives ()"
                   "driver_refresh env (w DriverRefresh + 1) = Gives ()"
      and pop05: "popup_look env Pop05 (w (PopupLook Pop05)) = NotShown"
      and found: "popup_look env Pop04 (w (PopupLook Pop04)) \<noteq> LookRaises"
      and check1: "popup_look env Pop04 (w (PopupLook Pop04) + 1) = Shown (Some (exception_text Pop04))"
      and check2: "popup_look env Pop04 (w (PopupLook Pop04) + 2) = Shown (Some (exception_text Pop04))"
      and check3: "overlay_cleared Pop04 (popup_look env Pop04 (w (PopupLook Pop04) + 3))"
  shows "\<exists>w'. check_and_handle_pop_exceptions env max_reload_attempts w = (True, w')
           \<and> w' DriverRefresh = w DriverRefresh + 2 \<and> w' DriverGet = w DriverGet
           \<and> w' ExecuteScript = w ExecuteScript"
proof -
  let ?sc = "stop_check env"
  let ?wa = "tick (PopupLook Pop04) (after_checks ?sc (Suc 0)
               (tick (PopupLook Pop04) (tick (PopupLook Pop05) w)))"
  have wa: "?wa (PopupLook Pop04) = w (PopupLook Pop04) + 2" "?wa DriverRefresh = w DriverRefresh"
    "?wa DriverGet = w DriverGet" "?wa ExecuteScript = w ExecuteScript"
    by simp_all
  obtain url1 where url1: "current_url env (?wa CurrentUrl) = Gives url1"
    using urls by blast
  have lt1: "(0::int) + 1 < max_reload_attempts"
    using max by simp
  have ref1: "driver_refresh env (?wa DriverRefresh) = Gives ()"
    using refresh(1) by simp
  have look2: "popup_look env Pop04 (?wa (PopupLook Pop04)) = Shown (Some (exception_text Pop04))"
    using check2 by simp
  obtain w1 where w1: "reload_until_cleared env Pop04 max_reload_attempts 0 ?wa
              = reload_until_cleared env Pop04 max_reload_attempts (0 + 1) w1"
      "w1 DriverRefresh = ?wa DriverRefresh + 1" "w1 DriverGet = ?wa DriverGet"
      "w1 ExecuteScript = ?wa ExecuteScript" "w1 (PopupLook Pop04) = ?wa (PopupLook Pop04) + 1"
    using reload_persists [OF run lt1 url1 ref1 look2] by blast
  obtain url2 where url2: "current_url env (w1 CurrentUrl) = Gives url2"
    using urls by blast
  have lt2: "(0::int) + 1 < max_reload_attempts"
    using max by simp
  have ref2: "driver_refresh env (w1 DriverRefresh) = Gives ()"
    using refresh(2) w1(2) by simp
  have look3: "overlay_cleared Pop04 (popup_look env Pop04 (w1 (PopupLook Pop04)))"
    using check3 w1(5) by (simp add: numeral_3_eq_3)
  obtain w2 where w2: "reload_until_cleared env Pop04 max_reload_attempts (0 + 1) w1 = (Some True, w2)"
      "w2 DriverRefresh = w1 DriverRefresh + 1" "w2 DriverGet = w1 DriverGet"
      "w2 ExecuteScript = w1 ExecuteScript"
    using reload_cleared [OF run lt2 url2 ref2 look3] by blast
  have disp: "check_pop04_displayed env max_reload_attempts
                (after_checks ?sc (Suc 0) (tick (PopupLook Pop04) (tick (PopupLook Pop05) w)))
              = (True, w2)"
    using check1 w1(1) w2(1) by (simp add: check_pop04_displayed_def py_in_refl)
  have p04: "check_pop04 env max_reload_attempts (tick (PopupLook Pop05) w) = (True, w2)"
    using found disp run
    by (simp add: check_pop04_def check_stop_never split: overlay.splits)
  have "check_and_handle_pop_exceptions env max_reload_attempts w = (True, w2)"
    using pop05 p04 by (simp add: check_and_handle_pop_exceptions_def)
  moreover have "w2 DriverRefresh = w DriverRefresh + 2" "w2 DriverGet = w DriverGet"
    "w2 ExecuteScript = w ExecuteScript"
    using w1 w2 wa by simp_all
  ultimately show ?thesis by blast
qed

text \<open>The theorem at the session whose pop04 shows the message twice and then is gone.\<close>

theorem two_matches_two_reloads_witness:
  "never_stops (stop_check overlay_env)
   \<and> popup_look overlay_env Pop04 1 = Shown (Some (exception_text Pop04))
   \<and> popup_look overlay_env Pop04 2 = Shown (Some (exception_text Pop04))
   \<and> overlay_cleared Pop04 (popup_look overlay_env Pop04 3)
   \<and> (\<exists>w'. check_and_handle_pop_exceptions overlay_env 5 world0 = (True, w')
         \<and> w' DriverRefresh = 2 \<and> w' DriverGet = 0 \<and> w' ExecuteScript = 0)"
  using two_matches_two_reloads [of overlay_env 5 world0]
  by (simp add: overlay_env_def quiet_browser_def world0_def never_stops_def overlay_cleared_def
      numeral_2_eq_2)

subsection \<open>The bound on the reloads\<close>

text \<open>
  Each reload attempt of the handler calls \<^verbatim>\<open>driver.refresh()\<close> once, and the handler
  makes at most \<^verbatim>\<open>max_reload_attempts\<close> attempts, for either overlay: the loop for pop05
  ends by its condition only when the bound is not positive.
\<close>

lemma check_stop_refresh: "check_stop sc w = (r, w') \<Longrightarrow> w' DriverRefresh = w DriverRefresh"
  by (auto simp: check_stop_def tick_def split: option.splits if_splits)

lemma check_stops_refresh: "check_stops n sc w = (r, w') \<Longrightarrow> w' DriverRefresh = w DriverRefresh"
proof (induction n arbitrary: w)
  case 0
  then show ?case by simp
next
  case (Suc n)
  obtain r1 w1 where cs: "check_stop sc w = (r1, w1)"
    by (cases "check_stop sc w")
  with check_stop_refresh [OF cs] Suc show ?case
    by (cases r1) auto
qed

lemma close_popup_refresh: "snd (close_popup env w) DriverRefresh = w DriverRefresh"
  by (simp add: close_popup_def tick_def)

lemma reload_via_script_refresh:
  "reload_via_script env w = (r, w') \<Longrightarrow> w' DriverRefresh = w DriverRefresh"
  by (auto simp: reload_via_script_def tick_def dest!: check_stops_refresh
      split: webdriver.splits prod.splits sum.splits)

lemma reload_via_get_refresh:
  "reload_via_get env w = (r, w') \<Longrightarrow> w' DriverRefresh = w DriverRefresh"
  by (auto simp: reload_via_get_def tick_def dest!: check_stops_refresh reload_via_script_refresh
      split: webdriver.splits prod.splits sum.splits)

lemma reload_page_refresh_once:
  "reload_page env w = (r, w') \<Longrightarrow> w' DriverRefresh = w DriverRefresh + 1"
  by (auto simp: reload_page_def tick_def dest!: check_stops_refresh reload_via_get_refresh
      split: webdriver.splits prod.splits sum.splits)

lemma reload_until_cleared_bound:
  "reload_until_cleared env p m a w = (r, w')
   \<Longrightarrow> w' DriverRefresh \<le> w DriverRefresh + nat (m - a) \<and> (r = None \<longrightarrow> \<not> a < m \<and> w' = w)"
proof (induction env p m a w rule: reload_until_cleared.induct)
  case (1 env p m a w)
  show ?case
  proof (cases "a < m")
    case False
    with "1.prems" show ?thesis
      by (simp add: reload_until_cleared.simps)
  next
    case True
    obtain r1 w1 where cs: "check_stop (stop_check env) w = (r1, w1)"
      by (cases "check_stop (stop_check env) w")
    note k1 = check_stop_refresh [OF cs]
    show ?thesis
    proof (cases r1)
      case (Inl e)
      with "1.prems" True cs k1 show ?thesis
        by (subst (asm) reload_until_cleared.simps) (auto simp: close_popup_refresh)
    next
      case (Inr u1)
      show ?thesis
      proof (cases "current_url env (w1 CurrentUrl)")
        case (Raises msg)
        with "1.prems" True cs k1 Inr show ?thesis
          by (subst (asm) reload_until_cleared.simps) (auto simp: close_popup_refresh tick_def)
      next
        case (Gives url)
        obtain ok w3 where rp: "reload_page env (tick CurrentUrl w1) = (ok, w3)"
          by (cases "reload_page env (tick CurrentUrl w1)")
        from reload_page_refresh_once [OF rp] k1
        have k3: "w3 DriverRefresh = w DriverRefresh + 1"
          by (simp add: tick_def)
        show ?thesis
        proof (cases ok)
          case False
          show ?thesis
          proof (cases "a + 1 < m")
            case lt: True
            with "1.prems" True cs Inr Gives rp False
            have "reload_until_cleared env p m (a + 1) w3 = (r, w')"
              by (subst (asm) reload_until_cleared.simps) simp
            from "1.IH"(2) [OF True cs [symmetric] Inr Gives rp [symmetric] _ lt this] False k3 lt
            show ?thesis by auto
          next
            case ge: False
            with "1.prems" True cs Inr Gives rp False k3 show ?thesis
              by (subst (asm) reload_until_cleared.simps) (auto simp: close_popup_refresh)
          qed
        next
          case ok: True
          obtain r4 w4 where cs4: "check_stop (stop_check env) w3 = (r4, w4)"
            by (cases "check_stop (stop_check env) w3")
          from check_stop_refresh [OF cs4] k3
          have k4: "w4 DriverRefresh = w DriverRefresh + 1"
            by simp
          show ?thesis
          proof (cases r4)
            case (Inl e)
            with "1.prems" True cs Inr Gives rp ok cs4 k4 show ?thesis
              by (subst (asm) reload_until_cleared.simps) (auto simp: close_popup_refresh)
          next
            case r4: (Inr u4)
            show ?thesis
            proof (cases "\<exists>t. popup_look env p (w4 (PopupLook p)) = Shown (Some t)
                \<and> py_in (exception_text p) t \<and> a + 1 < m")
              case False
              with "1.prems" True cs Inr Gives rp ok cs4 r4 k4 show ?thesis
                by (subst (asm) reload_until_cleared.simps)
                   (auto simp: close_popup_refresh tick_def split: overlay.splits option.splits if_splits)
            next
              case again: True
              then obtain t where t: "popup_look env p (w4 (PopupLook p)) = Shown (Some t)"
                  "py_in (exception_text p) t" "a + 1 < m"
                by blast
              with "1.prems" True cs Inr Gives rp ok cs4 r4
              have run: "reload_until_cleared env p m (a + 1) (tick (PopupLook p) w4) = (r, w')"
                by (subst (asm) reload_until_cleared.simps) simp
              from "1.IH"(1) [OF True cs [symmetric] Inr Gives rp [symmetric] _ cs4 [symmetric] r4
                  t(1) _ t(2) t(3) run] ok k4 t(3)
              show ?thesis by (auto simp: tick_def)
            qed
          qed
        qed
      qed
    qed
  qed
qed


lemma check_pop04_displayed_bound:
  "check_pop04_displayed env m w = (b, w') \<Longrightarrow> w' DriverRefresh \<le> w DriverRefresh + nat m"
  by (auto simp: check_pop04_displayed_def close_popup_refresh tick_def
      dest!: reload_until_cleared_bound
      split: overlay.splits option.splits prod.splits if_splits)

lemma check_pop04_bound:
  "check_pop04 env m w = (b, w') \<Longrightarrow> w' DriverRefresh \<le> w DriverRefresh + nat m"
  by (auto simp: check_pop04_def tick_def
      dest!: check_stop_refresh check_pop04_displayed_bound
      split: overlay.splits prod.splits sum.splits)

lemma handler_reload_bound:
  "check_and_handle_pop_exceptions env m w = (b, w') \<Longrightarrow> w' DriverRefresh \<le> w DriverRefresh + nat m"
  by (auto simp: check_and_handle_pop_exceptions_def close_popup_refresh tick_def
      dest!: reload_until_cleared_bound check_pop04_bound
      split: overlay.splits option.splits prod.splits if_splits)

section \<open>The orchestrator\<close>

subsection \<open>The final verdict\<close>

lemma status_literals_distinct:
  "distinct [st_success, st_failure, st_skipped_closed, st_skipped_completed, st_not_exist,
             st_interrupted, st_unknown]"
  by (simp add: st_success_def st_failure_def st_skipped_closed_def st_skipped_completed_def
      st_not_exist_def st_interrupted_def st_unknown_def)

lemma scan_has_interrupted:
  "has_interrupted (scan_results rs f) = (has_interrupted f \<or> st_interrupted \<in> set (map status rs))"
  using status_literals_distinct by (induction rs arbitrary: f) auto

lemma scan_has_failure:
  "has_failure (scan_results rs f) = (has_failure f \<or> st_failure \<in> set (map status rs))"
  using status_literals_distinct by (induction rs arbitrary: f) auto

lemma scan_has_skipped_closed:
  "has_skipped_closed (scan_results rs f)
     = (has_skipped_closed f \<or> st_skipped_closed \<in> set (map status rs))"
  using status_literals_distinct by (induction rs arbitrary: f) auto

lemma scan_has_not_exist:
  "has_not_exist (scan_results rs f) = (has_not_exist f \<or> st_not_exist \<in> set (map status rs))"
  using status_literals_distinct by (induction rs arbitrary: f) auto

lemma all_success_or_completed_iff:
  "all_success_or_completed rs
     = list_all (\<lambda>s. s = st_success \<or> s = st_skipped_completed) (map status rs)"
  by (induction rs) auto

lemma determine_final_status_spec:
  "fst (determine_final_status rs) = spec_final_status (map status rs)"
  by (simp add: determine_final_status_def spec_final_status_def Let_def no_flags_def
      scan_has_interrupted scan_has_failure scan_has_skipped_closed scan_has_not_exist
      all_success_or_completed_iff del: set_map)

lemma distinct_effective_selection: "distinct (effective_selection selected)"
  by (simp add: effective_selection_def)

lemma reverify_open_true:
  "reverify_open env sel b st w = (Inr (b', st'), w') \<Longrightarrow> b \<Longrightarrow> b'"
  by (induction env sel b st w rule: reverify_open.induct)
     (auto split: prod.splits sum.splits if_splits)

lemma reverify_open_none_open:
  "reverify_open env sel b st w = (Inr (False, st'), w') \<Longrightarrow> st' = st"
  by (induction env sel b st w rule: reverify_open.induct)
     (auto dest: reverify_open_true split: prod.splits sum.splits if_splits)

lemma final_verification_false:
  "final_verification env sel b st w = (Inr (b', st'), w') \<Longrightarrow> \<not> b \<Longrightarrow> \<not> b'"
  by (induction env sel b st w rule: final_verification.induct)
     (auto split: prod.splits sum.splits if_splits)

lemma final_verification_verified:
  "final_verification env sel b st w = (Inr (True, st'), w') \<Longrightarrow> st' = st"
  by (induction env sel b st w rule: final_verification.induct)
     (auto dest: final_verification_false split: prod.splits sum.splits if_splits)

lemma process_open_item_settled:
  "process_open_item env sel n st w = (ItemNext st', w')
   \<Longrightarrow> \<exists>r. lottery_results st' = lottery_results st @ [r] \<and> lottery r = n
         \<and> completed_lotteries st' \<subseteq> insert n (completed_lotteries st)
         \<and> (n \<in> completed_lotteries st' \<longrightarrow> n \<in> completed_lotteries st \<or> status r = st_success)"
  by (auto simp: process_open_item_def Let_def next_lottery_def append_result_def
      split: prod.splits sum.splits entry_outcome.splits bool.splits if_splits)

lemma process_item_settled:
  assumes "process_item env sel st w = (ItemNext st', w')"
      and "sel ! lottery_index st \<notin> completed_lotteries st"
  shows "\<exists>rs. lottery_results st' = lottery_results st @ rs
         \<and> completed_lotteries st' \<subseteq> insert (sel ! lottery_index st) (completed_lotteries st)
         \<and> (\<forall>r\<in>set rs. lottery r = sel ! lottery_index st
               \<and> (lottery r \<in> completed_lotteries st'
                    \<longrightarrow> status r = st_success \<or> status r = st_skipped_completed))"
  using assms
  by (auto simp: process_item_def Let_def next_lottery_def append_result_def
      dest!: process_open_item_settled split: prod.splits sum.splits if_splits)


lemma items_loop_settled:
  "distinct sel
     \<Longrightarrow> items_loop env sel st w = (Inr st', w') \<Longrightarrow> \<not> reload_occurred st'
     \<Longrightarrow> lottery_index st \<le> length sel
     \<Longrightarrow> completed_lotteries st \<subseteq> set (take (lottery_index st) sel)
     \<Longrightarrow> (\<forall>r\<in>set (lottery_results st). lottery r \<in> set (take (lottery_index st) sel)
            \<and> (lottery r \<in> completed_lotteries st
                 \<longrightarrow> status r = st_success \<or> status r = st_skipped_completed))
     \<Longrightarrow> (\<forall>r\<in>set (lottery_results st'). lottery r \<in> completed_lotteries st'
            \<longrightarrow> status r = st_success \<or> status r = st_skipped_completed)"
proof (induction env sel st w rule: items_loop.induct)
  case (1 env sel st w)
  let ?i = "lottery_index st"
  show ?case
  proof (cases "?i < length sel")
    case False
    with "1.prems" show ?thesis
      by (simp add: items_loop.simps)
  next
    case True
    obtain x w1 where pi: "process_item env sel st w = (x, w1)"
      by (cases "process_item env sel st w")
    have new: "sel ! ?i \<notin> set (take ?i sel)"
    proof
      assume "sel ! ?i \<in> set (take ?i sel)"
      then obtain j where "j < ?i" "sel ! j = sel ! ?i"
        using True by (auto simp: in_set_conv_nth)
      with "1.prems"(1) True show False
        by (auto simp: distinct_conv_nth)
    qed
    with "1.prems"(5) have fresh: "sel ! ?i \<notin> completed_lotteries st"
      by blast
    show ?thesis
    proof (cases x)
      case (ItemNext st1)
      with pi True "1.prems" have run: "items_loop env sel st1 w1 = (Inr st', w')"
        by (simp add: items_loop.simps)
      from process_item_next pi ItemNext
      have idx: "lottery_index st1 = Suc ?i"
        by blast
      from process_item_settled [OF _ fresh] pi ItemNext
      obtain rs where rs: "lottery_results st1 = lottery_results st @ rs"
          "completed_lotteries st1 \<subseteq> insert (sel ! ?i) (completed_lotteries st)"
          "\<forall>r\<in>set rs. lottery r = sel ! ?i
               \<and> (lottery r \<in> completed_lotteries st1
                    \<longrightarrow> status r = st_success \<or> status r = st_skipped_completed)"
        by blast
      have tk: "set (take (Suc ?i) sel) = insert (sel ! ?i) (set (take ?i sel))"
        using True by (simp add: take_Suc_conv_app_nth)
      have sub1: "completed_lotteries st1 \<subseteq> set (take (lottery_index st1) sel)"
        using rs(2) "1.prems"(5) idx tk by auto
      have inv1: "\<forall>r\<in>set (lottery_results st1). lottery r \<in> set (take (lottery_index st1) sel)
            \<and> (lottery r \<in> completed_lotteries st1
                 \<longrightarrow> status r = st_success \<or> status r = st_skipped_completed)"
      proof
        fix r
        assume "r \<in> set (lottery_results st1)"
        then consider "r \<in> set (lottery_results st)" | "r \<in> set rs"
          using rs(1) by auto
        then show "lottery r \<in> set (take (lottery_index st1) sel)
            \<and> (lottery r \<in> completed_lotteries st1
                 \<longrightarrow> status r = st_success \<or> status r = st_skipped_completed)"
        proof cases
          case 1
          with "1.prems"(6) have old: "lottery r \<in> set (take ?i sel)"
              "lottery r \<in> completed_lotteries st
                 \<longrightarrow> status r = st_success \<or> status r = st_skipped_completed"
            by blast+
          from old(1) new have "lottery r \<noteq> sel ! ?i"
            by auto
          with rs(2) old show ?thesis
            unfolding idx tk by auto
        next
          case 2
          with rs(3) show ?thesis
            unfolding idx tk by auto
        qed
      qed
      have le1: "lottery_index st1 \<le> length sel"
        using idx True by simp
      show ?thesis
        by (rule "1.IH" [OF True pi [symmetric] ItemNext "1.prems"(1) run "1.prems"(3) le1 sub1 inv1])
    next
      case (ItemBreak st1)
      with pi True "1.prems" have "st' = st1"
        by (simp add: items_loop.simps)
      with process_item_break pi ItemBreak "1.prems"(3) show ?thesis
        by blast
    next
      case (ItemRaise e)
      with pi True "1.prems" show ?thesis
        by (simp add: items_loop.simps)
    qed
  qed
qed

lemma items_loop_within:
  "items_loop env sel st w = (Inr st', w')
     \<Longrightarrow> lottery ` set (lottery_results st) \<subseteq> set sel
     \<Longrightarrow> lottery ` set (lottery_results st') \<subseteq> set sel"
proof (induction env sel st w rule: items_loop.induct)
  case (1 env sel st w)
  show ?case
  proof (cases "lottery_index st < length sel")
    case False
    with "1.prems" show ?thesis
      by (simp add: items_loop.simps)
  next
    case True
    have step: "lottery ` set (lottery_results st1) \<subseteq> set sel"
      if "process_item env sel st w = (x, w1)" "x = ItemNext st1 \<or> x = ItemBreak st1" for x w1 st1
      using that "1.prems"(2) True
      by (auto simp: process_item_def process_open_item_def Let_def next_lottery_def
          append_result_def restart_after_reload_def image_subset_iff
          split: prod.splits sum.splits entry_outcome.splits bool.splits if_splits)
    obtain x w1 where pi: "process_item env sel st w = (x, w1)"
      by (cases "process_item env sel st w")
    show ?thesis
    proof (cases x)
      case (ItemNext st1)
      with pi True "1.prems" have run: "items_loop env sel st1 w1 = (Inr st', w')"
        by (simp add: items_loop.simps)
      from "1.IH" [OF True pi [symmetric] ItemNext run] step [OF pi] ItemNext show ?thesis
        by blast
    next
      case (ItemBreak st1)
      with pi True "1.prems" have "st' = st1"
        by (simp add: items_loop.simps)
      with step [OF pi] ItemBreak show ?thesis
        by blast
    next
      case (ItemRaise e)
      with pi True "1.prems" show ?thesis
        by (simp add: items_loop.simps)
    qed
  qed
qed

lemma filter_all:
  "length xs \<le> length (filter P xs) \<Longrightarrow> x \<in> set xs \<Longrightarrow> P x"
  using length_filter_less [of x xs P] by fastforce

lemma spec_final_status_settled:
  "\<forall>s\<in>set statuses. s = st_success \<or> s = st_skipped_completed
   \<Longrightarrow> spec_final_status statuses = st_success"
  using status_literals_distinct
  by (auto simp: spec_final_status_def list_all_iff)

lemma completed_check_break:
  assumes "completed_check env sel st w = (Inr (BreakA st'), w')"
      and "lottery ` set (lottery_results st) \<subseteq> set sel"
      and "\<forall>r\<in>set (lottery_results st). lottery r \<in> completed_lotteries st
            \<longrightarrow> status r = st_success \<or> status r = st_skipped_completed"
  shows "final_status_v st' = spec_final_status (map status (lottery_results st'))"
proof -
  from assms(1) obtain w1 st1 where
      ro: "reverify_open env sel False st w = (Inr (False, st1), w1)"
      and all: "length sel \<le> length (filter (\<lambda>n. n \<in> completed_lotteries st1) sel)"
      and st': "st' = st1\<lparr>final_status_v := st_success, final_message := st_success\<rparr>"
    by (auto simp: completed_check_def Let_def split: prod.splits sum.splits if_splits)
  from reverify_open_none_open [OF ro] have same: "st1 = st" .
  have "\<forall>s\<in>set (map status (lottery_results st)). s = st_success \<or> s = st_skipped_completed"
    using assms(2,3) filter_all [OF all] same by auto
  from spec_final_status_settled [OF this] show ?thesis
    using st' same by simp
qed

lemma completed_check_proceed_same:
  "completed_check env sel st w = (Inr (Proceed st'), w') \<Longrightarrow> st' = st"
  by (auto simp: completed_check_def Let_def dest: reverify_open_none_open
      split: prod.splits sum.splits if_splits)

lemma final_status_block_break:
  assumes "final_status_block env sel st w = (Inr (Break st'), w')"
      and "retry_attempt st < max_retry_attempts - 1"
  shows "final_status_v st' = spec_final_status (map status (lottery_results st'))"
proof -
  obtain fs fm where d: "determine_final_status (lottery_results st) = (fs, fm)"
    by (cases "determine_final_status (lottery_results st)")
  with determine_final_status_spec [of "lottery_results st"]
  have fs: "fs = spec_final_status (map status (lottery_results st))"
    by simp
  let ?st1 = "st\<lparr>final_status_v := fs, final_message := fm\<rparr>"
  show ?thesis
  proof (cases "fs = st_success")
    case False
    with assms(1) d have "st' = ?st1"
      by (simp add: final_status_block_def)
    with fs show ?thesis
      by simp
  next
    case True
    with assms(1) d obtain b st2 where
        fv: "final_verification env sel True ?st1 w = (Inr (b, st2), w')"
        and out: "(b \<and> st' = st2) \<or> (\<not> b \<and> \<not> retry_attempt st2 < max_retry_attempts - 1)"
      by (auto simp: final_status_block_def Let_def split: prod.splits sum.splits if_splits)
    from final_verification_keeps [OF fv] assms(2) out have b: "b" "st' = st2"
      by auto
    from fv b(1) have "final_verification env sel True ?st1 w = (Inr (True, st2), w')"
      by simp
    from final_verification_verified [OF this] have "st2 = ?st1" .
    with b fs show ?thesis
      by simp
  qed
qed

lemma reverify_open_shrinks:
  "reverify_open env sel b st w = (Inr (b', st'), w')
   \<Longrightarrow> completed_lotteries st' \<subseteq> completed_lotteries st"
  by (induction env sel b st w rule: reverify_open.induct)
     (auto split: prod.splits sum.splits if_splits)

lemma final_verification_shrinks:
  "final_verification env sel b st w = (Inr (b', st'), w')
   \<Longrightarrow> completed_lotteries st' \<subseteq> completed_lotteries st"
  by (induction env sel b st w rule: final_verification.induct)
     (auto split: prod.splits sum.splits if_splits)

lemma filter_short:
  "\<not> length xs \<le> length (filter P xs) \<Longrightarrow> \<exists>x\<in>set xs. \<not> P x"
  by (induction xs) (auto split: if_splits)

lemma completed_check_proceed_open:
  "completed_check env sel st w = (Inr (Proceed st'), w')
   \<Longrightarrow> \<not> set sel \<subseteq> completed_lotteries st'"
  by (auto simp: completed_check_def Let_def dest!: filter_short
      split: prod.splits sum.splits if_splits)

lemma completed_check_break_all:
  "completed_check env sel st w = (Inr (BreakA st'), w')
   \<Longrightarrow> set sel \<subseteq> completed_lotteries st' \<and> final_status_v st' = st_success"
  by (auto simp: completed_check_def Let_def dest: filter_all
      split: prod.splits sum.splits if_splits)

lemma final_status_block_verdict:
  assumes "final_status_block env sel st w = (Inr (Break st'), w')"
      and "final_message st' \<noteq> msg_final_open"
  shows "final_status_v st' = spec_final_status (map status (lottery_results st'))
       \<and> completed_lotteries st' \<subseteq> completed_lotteries st"
proof -
  obtain fs fm where d: "determine_final_status (lottery_results st) = (fs, fm)"
    by (cases "determine_final_status (lottery_results st)")
  with determine_final_status_spec [of "lottery_results st"]
  have fs: "fs = spec_final_status (map status (lottery_results st))"
    by simp
  let ?st1 = "st\<lparr>final_status_v := fs, final_message := fm\<rparr>"
  show ?thesis
  proof (cases "fs = st_success")
    case False
    with assms(1) d have "st' = ?st1"
      by (simp add: final_status_block_def)
    with fs show ?thesis
      by simp
  next
    case True
    with assms d obtain st2 where
        fv: "final_verification env sel True ?st1 w = (Inr (True, st2), w')"
        and out: "st' = st2"
      by (auto simp: final_status_block_def Let_def split: prod.splits sum.splits if_splits)
    from final_verification_verified [OF fv] have "st2 = ?st1" .
    with out fs show ?thesis
      by simp
  qed
qed

lemma one_pass_break_verdict:
  assumes pass: "one_pass env sel st w = (Inr (Break st'), w')"
      and not_forced: "final_message st' \<noteq> msg_final_open"
  shows "final_status_v st' =
           (if set sel \<subseteq> completed_lotteries st' then st_success
            else spec_final_status (map status (lottery_results st')))"
proof -
  let ?st0 = "st\<lparr>reload_occurred := False, lottery_index := 0, checked_count := 0\<rparr>"
  from pass obtain w3 st1 w4 where
    il: "items_loop env sel ?st0 w3 = (Inr st1, w4)" and
    ap: "after_pass env sel st1 w4 = (Inr (Break st'), w')"
    by (auto simp: one_pass_def Let_def split: prod.splits sum.splits)
  from ap have nr: "\<not> reload_occurred st1"
    by (auto simp: after_pass_def split: if_splits)
  show ?thesis
  proof (cases "length sel \<le> checked_count st1")
    case False
    with ap nr show ?thesis
      by (simp add: after_pass_def)
  next
    case True
    obtain x w5 where cc: "completed_check env sel st1 w4 = (x, w5)"
      by (cases "completed_check env sel st1 w4")
    show ?thesis
    proof (cases x)
      case (Inl e)
      with ap nr True cc show ?thesis
        by (simp add: after_pass_def)
    next
      case (Inr y)
      show ?thesis
      proof (cases y)
        case (ContinueA st2)
        with ap nr True cc Inr show ?thesis
          by (simp add: after_pass_def)
      next
        case (BreakA st2)
        with ap nr True cc Inr have "st' = st2"
          by (simp add: after_pass_def)
        with completed_check_break_all cc Inr BreakA show ?thesis
          by auto
      next
        case (Proceed st2)
        with ap nr True cc Inr
        have fb: "final_status_block env sel st2 w5 = (Inr (Break st'), w')"
          by (auto simp: after_pass_def split: if_splits)
        from completed_check_proceed_open cc Inr Proceed
        have "\<not> set sel \<subseteq> completed_lotteries st2"
          by blast
        with final_status_block_verdict [OF fb not_forced] show ?thesis
          by auto
      qed
    qed
  qed
qed

lemma retry_loop_verdict:
  "retry_loop env sel st w = (Inr st', w')
   \<Longrightarrow> length (restart_states env sel st w) + retry_attempt st < max_retry_attempts
   \<Longrightarrow> final_message st' \<noteq> msg_final_open
   \<Longrightarrow> final_status_v st' =
           (if set sel \<subseteq> completed_lotteries st' then st_success
            else spec_final_status (map status (lottery_results st')))"
proof (induction env sel st w rule: retry_loop.induct)
  case (1 env sel st w)
  from "1.prems"(2) have lt: "retry_attempt st < max_retry_attempts"
    by simp
  obtain x w1 where op: "one_pass env sel st w = (x, w1)"
    by (cases "one_pass env sel st w")
  show ?case
  proof (cases x)
    case (Inl e)
    with op lt "1.prems"(1) show ?thesis
      by (simp add: retry_loop.simps)
  next
    case (Inr y)
    show ?thesis
    proof (cases y)
      case (Continue st1)
      with op lt Inr "1.prems"(1) have run: "retry_loop env sel st1 w1 = (Inr st', w')"
        by (simp add: retry_loop.simps)
      have rs: "restart_states env sel st w = st1 # restart_states env sel st1 w1"
        using op lt Inr Continue by (subst restart_states.simps) simp
      from one_pass_continue op Inr Continue have "retry_attempt st1 = Suc (retry_attempt st)"
        by blast
      with rs "1.prems"(2)
      have "length (restart_states env sel st1 w1) + retry_attempt st1 < max_retry_attempts"
        by simp
      from "1.IH" [OF lt op [symmetric] Inr Continue run this "1.prems"(3)] show ?thesis .
    next
      case (Break st1)
      with op lt Inr "1.prems"(1) have "st' = st1" "w' = w1"
        by (simp_all add: retry_loop.simps)
      with op Inr Break one_pass_break_verdict "1.prems"(3) show ?thesis
        by blast
    qed
  qed
qed

lemma first_pass_verdict:
  assumes first: "one_pass env sel initial_state w = (Inr (Break st), w')"
      and d: "distinct sel"
  shows "final_status_v st = spec_final_status (map status (lottery_results st))"
proof -
  let ?st0 = "initial_state\<lparr>reload_occurred := False, lottery_index := 0, checked_count := 0\<rparr>"
  from first obtain w3 st1 w4 where
    il: "items_loop env sel ?st0 w3 = (Inr st1, w4)" and
    ap: "after_pass env sel st1 w4 = (Inr (Break st), w')"
    by (auto simp: one_pass_def Let_def split: prod.splits sum.splits)
  from ap have nr: "\<not> reload_occurred st1"
    by (auto simp: after_pass_def split: if_splits)
  from items_loop_progress [OF il] nr have ra: "retry_attempt st1 = 0"
    by (simp add: initial_state_def)
  have settled: "\<forall>r\<in>set (lottery_results st1). lottery r \<in> completed_lotteries st1
            \<longrightarrow> status r = st_success \<or> status r = st_skipped_completed"
    by (rule items_loop_settled [OF d il nr]) (simp_all add: initial_state_def)
  have within: "lottery ` set (lottery_results st1) \<subseteq> set sel"
    by (rule items_loop_within [OF il]) (simp add: initial_state_def)
  show ?thesis
  proof (cases "length sel \<le> checked_count st1")
    case False
    with ap nr show ?thesis
      by (simp add: after_pass_def)
  next
    case True
    obtain x w5 where cc: "completed_check env sel st1 w4 = (x, w5)"
      by (cases "completed_check env sel st1 w4")
    show ?thesis
    proof (cases x)
      case (Inl e)
      with ap nr True cc show ?thesis
        by (simp add: after_pass_def)
    next
      case (Inr y)
      show ?thesis
      proof (cases y)
        case (ContinueA st2)
        with ap nr True cc Inr show ?thesis
          by (simp add: after_pass_def)
      next
        case (BreakA st2)
        with ap nr True cc Inr have "st = st2"
          by (simp add: after_pass_def)
        with completed_check_break [OF _ within settled] cc Inr BreakA show ?thesis
          by simp
      next
        case (Proceed st2)
        with completed_check_proceed_same cc Inr have "st2 = st1"
          by blast
        with ap nr True cc Inr Proceed
        have "final_status_block env sel st1 w5 = (Inr (Break st), w')"
          by (simp add: after_pass_def)
        from final_status_block_break [OF this] ra show ?thesis
          by (simp add: max_retry_attempts_def)
      qed
    qed
  qed
qed

text \<open>
  Claim C1, as amended. For a batch that ends before its retries are exhausted (fewer
  than ten restarts, and not by the failure forced when the final verification still
  finds an open item at the last attempt), the final verdict is the function of the
  recorded statuses with the precedence interrupted, then failure (failure, skipped
  (closed), not existing), then success (all success or skipped (completed)), then
  failure; except when the batch ends, after a restart, at the gate of bot.py 2309-2327
  with every selected item in the completed set: there the verdict is success, whatever
  the statuses recorded.
\<close>

theorem final_status_verdict:
  assumes run: "retry_loop env (effective_selection selected) initial_state w = (Inr st, w')"
      and ended: "length (restart_states env (effective_selection selected) initial_state w)
                    < max_retry_attempts"
      and not_forced: "final_message st \<noteq> msg_final_open"
  shows "process_all_lotteries env selected w =
           (Inr \<lparr> results = lottery_results st, final_status = final_status_v st,
                  message = final_message st \<rparr>, w')
       \<and> final_status_v st =
           (if restart_states env (effective_selection selected) initial_state w \<noteq> []
               \<and> set (effective_selection selected) \<subseteq> completed_lotteries st
            then st_success
            else spec_final_status (map status (lottery_results st)))"
proof -
  let ?sel = "effective_selection selected"
  have lt: "retry_attempt initial_state < max_retry_attempts"
    by (simp add: initial_state_def max_retry_attempts_def)
  obtain x w1 where op: "one_pass env ?sel initial_state w = (x, w1)"
    by (cases "one_pass env ?sel initial_state w")
  have verdict: "final_status_v st =
           (if restart_states env ?sel initial_state w \<noteq> [] \<and> set ?sel \<subseteq> completed_lotteries st
            then st_success
            else spec_final_status (map status (lottery_results st)))"
  proof (cases x)
    case (Inl e)
    with op lt run show ?thesis
      by (simp add: retry_loop.simps)
  next
    case (Inr y)
    show ?thesis
    proof (cases y)
      case (Continue st1)
      with op lt Inr run have run1: "retry_loop env ?sel st1 w1 = (Inr st, w')"
        by (simp add: retry_loop.simps)
      have rs: "restart_states env ?sel initial_state w = st1 # restart_states env ?sel st1 w1"
        using op lt Inr Continue by (subst restart_states.simps) simp
      from one_pass_continue op Inr Continue have "retry_attempt st1 = Suc 0"
        by (auto simp: initial_state_def)
      with rs ended
      have "length (restart_states env ?sel st1 w1) + retry_attempt st1 < max_retry_attempts"
        by simp
      from retry_loop_verdict [OF run1 this not_forced] rs show ?thesis
        by simp
    next
      case (Break st1)
      with op lt Inr run have same: "st = st1" "w' = w1"
        by (simp_all add: retry_loop.simps)
      have rs: "restart_states env ?sel initial_state w = []"
        using op lt Inr Break by (subst restart_states.simps) simp
      from first_pass_verdict [OF _ distinct_effective_selection] op Inr Break same rs
      show ?thesis
        by auto
    qed
  qed
  with run show ?thesis
    by (simp add: process_all_lotteries_def)
qed

text \<open>
  The theorem at a restarted batch: the submission of item 1 asks for a reload, and the
  second pass finds the item closed. The verdict is the one of the recorded statuses.
\<close>

theorem final_status_verdict_witness:
  "restart_states reload_then_closed_env (effective_selection (Some [1])) initial_state world0 \<noteq> []
   \<and> final_status (projr (fst (process_all_lotteries reload_then_closed_env (Some [1]) world0)))
       = spec_final_status
           (map status (results (projr (fst (process_all_lotteries reload_then_closed_env (Some [1]) world0)))))"
proof -
  let ?sel = "effective_selection (Some [1])"
  have "\<exists>st w'. retry_loop reload_then_closed_env ?sel initial_state world0 = (Inr st, w')
      \<and> final_message st \<noteq> msg_final_open \<and> \<not> set ?sel \<subseteq> completed_lotteries st"
    by (simp add: literal_defs world_defs handler_defs orch_defs quiet_browser_def
        reload_then_closed_env_def)
  then obtain st w' where run:
      "retry_loop reload_then_closed_env ?sel initial_state world0 = (Inr st, w')"
      and not_forced: "final_message st \<noteq> msg_final_open"
      and open_item: "\<not> set ?sel \<subseteq> completed_lotteries st"
    by blast
  have rs: "length (restart_states reload_then_closed_env ?sel initial_state world0) = 1"
    by (simp add: literal_defs world_defs handler_defs orch_defs restart_defs quiet_browser_def
        reload_then_closed_env_def)
  then have ended: "length (restart_states reload_then_closed_env ?sel initial_state world0)
      < max_retry_attempts"
    by (simp add: max_retry_attempts_def)
  from rs have "restart_states reload_then_closed_env ?sel initial_state world0 \<noteq> []"
    by auto
  with final_status_verdict [OF run ended not_forced] open_item show ?thesis
    by simp
qed

text \<open>
  Claim C1 as stated fails: the batch of \<open>retried_env\<close> finishes with the verdict
  success although a failure is recorded. The first pass records the failed submission of
  item 1; the re-verification finds the item still open and starts a second pass, which
  finds it completed; every selected item then being in the completed set, the verdict
  is set to success at bot.py 2324 without the aggregation step.
\<close>

theorem retried_item_success_counterexample:
  "fst (process_all_lotteries retried_env (Some [1]) world0) =
     Inr \<lparr> results =
              [\<lparr>lottery = 1, status = st_failure, reason = lottery_text 1 reason_failure\<rparr>,
               \<lparr>lottery = 1, status = st_skipped_completed,
                  reason = lottery_text 1 reason_completed\<rparr>],
            final_status = st_success, message = st_success \<rparr>
   \<and> spec_final_status [st_failure, st_skipped_completed] = st_failure
   \<and> st_failure \<noteq> st_success"
  by (simp add: literal_defs world_defs handler_defs orch_defs quiet_browser_def retried_env_def
      spec_final_status_def)

subsection \<open>Items that are all completed already\<close>

lemma ensure_apply_page_healthy:
  assumes "healthy env"
  shows "\<exists>w'. ensure_apply_page env n w = (Inr (), w')"
proof -
  obtain url where "current_url env (w CurrentUrl) = Gives url"
    using assms by (auto simp: healthy_def)
  then show ?thesis
    by (auto simp: ensure_apply_page_def split: webdriver.splits)
qed

lemma label_literals_distinct: "distinct [label_open, label_completed, label_closed]"
  by (simp add: label_open_def label_completed_def label_closed_def)

lemma label_completed_truthy: "truthy (Some label_completed)"
  by (simp add: truthy_def label_completed_def)

lemma process_item_completed:
  assumes h: "healthy env"
      and all_completed: "\<And>k n. check_lottery_status env k n = (Some label_completed, True)"
      and fresh: "sel ! lottery_index st \<notin> completed_lotteries st"
  shows "\<exists>w'. process_item env sel st w =
           (ItemNext (st\<lparr>completed_lotteries := insert (sel ! lottery_index st) (completed_lotteries st),
                         lottery_results := lottery_results st @ [completed_entry (sel ! lottery_index st)],
                         lottery_index := lottery_index st + 1,
                         checked_count := checked_count st + 1\<rparr>), w')"
proof -
  have run: "never_stops (stop_check env)"
    using h by (simp add: healthy_def)
  obtain w2 where w2: "ensure_apply_page env 5 (after_checks (stop_check env) (Suc 0) w) = (Inr (), w2)"
    using ensure_apply_page_healthy [OF h] by blast
  show ?thesis
    using fresh label_literals_distinct label_completed_truthy
    by (simp add: process_item_def check_stop_never [OF run] w2 all_completed Let_def
        next_lottery_def append_result_def completed_entry_def)
qed

lemma items_loop_completed:
  assumes h: "healthy env"
      and all_completed: "\<And>k n. check_lottery_status env k n = (Some label_completed, True)"
      and d: "distinct sel"
  shows "lottery_index st \<le> length sel
     \<Longrightarrow> completed_lotteries st \<subseteq> set (take (lottery_index st) sel)
     \<Longrightarrow> \<exists>st' w'. items_loop env sel st w = (Inr st', w')
           \<and> completed_lotteries st' = completed_lotteries st \<union> set (drop (lottery_index st) sel)
           \<and> lottery_results st' = lottery_results st @ map completed_entry (drop (lottery_index st) sel)
           \<and> checked_count st' = checked_count st + (length sel - lottery_index st)
           \<and> reload_occurred st' = reload_occurred st
           \<and> retry_attempt st' = retry_attempt st"
proof (induction "length sel - lottery_index st" arbitrary: st w)
  case 0
  then show ?case
    by (simp add: items_loop.simps)
next
  case (Suc k)
  let ?i = "lottery_index st"
  let ?n = "sel ! ?i"
  have lt: "?i < length sel"
    using Suc.hyps(2) by simp
  have fresh: "?n \<notin> completed_lotteries st"
  proof
    assume "?n \<in> completed_lotteries st"
    with Suc.prems(2) have "?n \<in> set (take ?i sel)" by blast
    then obtain j where "j < ?i" "sel ! j = ?n"
      using lt by (auto simp: in_set_conv_nth)
    with d lt show False
      by (auto simp: distinct_conv_nth)
  qed
  let ?st1 = "st\<lparr>completed_lotteries := insert ?n (completed_lotteries st),
                 lottery_results := lottery_results st @ [completed_entry ?n],
                 lottery_index := ?i + 1,
                 checked_count := checked_count st + 1\<rparr>"
  obtain w1 where pi: "process_item env sel st w = (ItemNext ?st1, w1)"
    using process_item_completed [OF h all_completed fresh] by blast
  have k: "k = length sel - lottery_index ?st1"
    using Suc.hyps(2) by simp
  have le1: "lottery_index ?st1 \<le> length sel"
    using lt by simp
  have sub1: "completed_lotteries ?st1 \<subseteq> set (take (lottery_index ?st1) sel)"
    using Suc.prems(2) lt by (auto simp: take_Suc_conv_app_nth)
  obtain st' w' where r: "items_loop env sel ?st1 w1 = (Inr st', w')"
      "completed_lotteries st' = completed_lotteries ?st1 \<union> set (drop (lottery_index ?st1) sel)"
      "lottery_results st' = lottery_results ?st1 @ map completed_entry (drop (lottery_index ?st1) sel)"
      "checked_count st' = checked_count ?st1 + (length sel - lottery_index ?st1)"
      "reload_occurred st' = reload_occurred ?st1"
      "retry_attempt st' = retry_attempt ?st1"
    using Suc.hyps(1) [OF k le1 sub1] by blast
  have dr: "drop ?i sel = ?n # drop (Suc ?i) sel"
    using lt by (simp add: Cons_nth_drop_Suc)
  have "items_loop env sel st w = (Inr st', w')"
    using lt pi r(1) by (subst items_loop.simps) simp
  with r dr lt show ?case
    by auto
qed


lemma reverify_open_completed:
  assumes run: "never_stops (stop_check env)"
      and all_completed: "\<And>k n. check_lottery_status env k n = (Some label_completed, True)"
  shows "\<exists>w'. reverify_open env sel b st w = (Inr (b, st), w')"
  using label_literals_distinct
  by (induction sel arbitrary: w) (auto simp: check_stop_never [OF run] all_completed)

lemma verify_all_completed_completed:
  assumes run: "never_stops (stop_check env)"
      and all_completed: "\<And>k n. check_lottery_status env k n = (Some label_completed, True)"
  shows "\<exists>w'. verify_all_completed env sel w = (Inr True, w')"
  by (induction sel arbitrary: w) (auto simp: check_stop_never [OF run] all_completed)

text \<open>
  Claim C8. When every status probe answers the label of an already completed item (and
  no stop is requested and the URL can be read), the batch ends with the final status
  success and the message success, whatever the selection; each selected number has its
  skipped (completed) entry.
\<close>

theorem all_completed_success:
  assumes h: "healthy env"
      and all_completed: "\<And>k n. check_lottery_status env k n = (Some label_completed, True)"
  shows "\<exists>w'. process_all_lotteries env selected w =
           (Inr \<lparr> results = map completed_entry (effective_selection selected),
                  final_status = st_success, message = st_success \<rparr>, w')"
proof -
  let ?sel = "effective_selection selected"
  let ?sc = "stop_check env"
  let ?st0 = "initial_state\<lparr>reload_occurred := False, lottery_index := 0, checked_count := 0\<rparr>"
  have run: "never_stops ?sc"
    using h by (simp add: healthy_def)
  obtain w3 where w3: "ensure_apply_page env 5
      (after_checks ?sc (Suc 0) (tick CaptchaCheck (after_checks ?sc (Suc 0) w))) = (Inr (), w3)"
    using ensure_apply_page_healthy [OF h] by blast
  obtain st1 w4 where il: "items_loop env ?sel ?st0 w3 = (Inr st1, w4)"
      and comp: "completed_lotteries st1 = completed_lotteries ?st0 \<union> set (drop (lottery_index ?st0) ?sel)"
      and res: "lottery_results st1 = lottery_results ?st0 @ map completed_entry (drop (lottery_index ?st0) ?sel)"
      and cnt: "checked_count st1 = checked_count ?st0 + (length ?sel - lottery_index ?st0)"
      and rel: "reload_occurred st1 = reload_occurred ?st0"
    using items_loop_completed [OF h all_completed distinct_effective_selection, of ?st0 selected w3]
    by (auto simp: initial_state_def)
  obtain w5 where ro: "reverify_open env ?sel False st1 w4 = (Inr (False, st1), w5)"
    using reverify_open_completed [OF run all_completed] by blast
  obtain w6 where va: "verify_all_completed env ?sel w5 = (Inr True, w6)"
    using verify_all_completed_completed [OF run all_completed] by blast
  have filt: "filter (\<lambda>n. n \<in> completed_lotteries st1) ?sel = ?sel"
    using comp by (simp add: initial_state_def)
  have cc: "completed_check env ?sel st1 w4 =
      (Inr (BreakA (st1\<lparr>final_status_v := st_success, final_message := st_success\<rparr>)), w6)"
    by (simp add: completed_check_def ro va filt Let_def)
  have ap: "after_pass env ?sel st1 w4 =
      (Inr (Break (st1\<lparr>final_status_v := st_success, final_message := st_success\<rparr>)), w6)"
    using rel cnt cc by (simp add: after_pass_def)
  have op: "one_pass env ?sel initial_state w =
      (Inr (Break (st1\<lparr>final_status_v := st_success, final_message := st_success\<rparr>)), w6)"
    by (simp add: one_pass_def Let_def check_stop_never [OF run] w3 il ap)
  have "retry_loop env ?sel initial_state w =
      (Inr (st1\<lparr>final_status_v := st_success, final_message := st_success\<rparr>), w6)"
  proof -
    have "retry_attempt initial_state < max_retry_attempts"
      by (simp add: initial_state_def max_retry_attempts_def)
    then show ?thesis
      by (subst retry_loop.simps) (simp add: op)
  qed
  then show ?thesis
    using res by (simp add: process_all_lotteries_def initial_state_def)
qed

text \<open>The theorem at the quiet session with the selection 3, 1, 2, 2.\<close>

theorem all_completed_success_witness:
  "healthy quiet_browser
   \<and> (\<exists>w'. process_all_lotteries quiet_browser (Some [3, 1, 2, 2]) world0 =
           (Inr \<lparr> results = [completed_entry 1, completed_entry 2, completed_entry 3],
                  final_status = st_success, message = st_success \<rparr>, w'))"
  using all_completed_success [of quiet_browser "Some [3, 1, 2, 2]" world0]
  by (simp add: healthy_def never_stops_def quiet_browser_def effective_selection_def)

subsection \<open>One entry per selected item\<close>

lemma mark_reopened_lottery: "map lottery (mark_reopened n rs) = map lottery rs"
  by (induction rs) auto

lemma mark_final_open_lottery: "map lottery (mark_final_open n rs) = map lottery rs"
  by (induction rs) auto

lemma reverify_open_lottery:
  "reverify_open env sel b st w = (Inr (b', st'), w')
   \<Longrightarrow> map lottery (lottery_results st') = map lottery (lottery_results st)"
  by (induction env sel b st w rule: reverify_open.induct)
     (auto simp: mark_reopened_lottery split: prod.splits sum.splits if_splits)

lemma final_verification_lottery:
  "final_verification env sel b st w = (Inr (b', st'), w')
   \<Longrightarrow> map lottery (lottery_results st') = map lottery (lottery_results st)"
  by (induction env sel b st w rule: final_verification.induct)
     (auto simp: mark_final_open_lottery split: prod.splits sum.splits if_splits)

lemma nth_in_take:
  assumes "distinct xs" and "i < length xs"
  shows "(xs ! i \<in> set (take m xs)) = (i < m)"
proof
  assume "xs ! i \<in> set (take m xs)"
  then obtain j where j: "j < m" "j < length xs" "xs ! j = xs ! i"
    by (auto simp: in_set_conv_nth)
  with assms have "j = i"
    by (auto simp: distinct_conv_nth)
  with j show "i < m"
    by simp
next
  assume "i < m"
  with assms(2) show "xs ! i \<in> set (take m xs)"
    by (auto simp: in_set_conv_nth intro!: exI [where x = i])
qed

lemma process_item_skip:
  assumes "process_item env sel st w = (x, w')"
      and "sel ! lottery_index st \<in> completed_lotteries st"
  shows "(\<exists>e. x = ItemRaise e)
       \<or> (\<exists>st'. x = ItemNext st' \<and> lottery_results st' = lottery_results st
              \<and> completed_lotteries st' = completed_lotteries st)"
  using assms
  by (auto simp: process_item_def Let_def next_lottery_def
      split: prod.splits sum.splits if_splits)

lemma process_open_item_next_recorded:
  "process_open_item env sel n st w = (ItemNext st', w')
   \<Longrightarrow> \<exists>r. lottery_results st' = lottery_results st @ [r] \<and> lottery r = n
         \<and> completed_lotteries st \<subseteq> completed_lotteries st'
         \<and> completed_lotteries st' \<subseteq> insert n (completed_lotteries st)"
  by (auto simp: process_open_item_def Let_def next_lottery_def append_result_def
      split: prod.splits sum.splits entry_outcome.splits bool.splits if_splits)

lemma process_open_item_break_recorded:
  "process_open_item env sel n st w = (ItemBreak st', w')
   \<Longrightarrow> (lottery_results st' = lottery_results st \<and> completed_lotteries st' = completed_lotteries st)
     \<or> (\<exists>r. lottery_results st' = lottery_results st @ [r] \<and> lottery r = n
           \<and> completed_lotteries st \<subseteq> completed_lotteries st'
           \<and> completed_lotteries st' \<subseteq> insert n (completed_lotteries st))"
  by (auto simp: process_open_item_def Let_def next_lottery_def append_result_def
      restart_after_reload_def
      split: prod.splits sum.splits entry_outcome.splits bool.splits if_splits)

lemma process_item_next_recorded:
  assumes pi: "process_item env sel st w = (ItemNext st', w')"
      and labelled: "\<forall>k. snd (check_lottery_status env k (sel ! lottery_index st))
                       \<longrightarrow> truthy (fst (check_lottery_status env k (sel ! lottery_index st)))"
      and fresh: "sel ! lottery_index st \<notin> completed_lotteries st"
  shows "\<exists>r. lottery_results st' = lottery_results st @ [r] \<and> lottery r = sel ! lottery_index st
         \<and> completed_lotteries st \<subseteq> completed_lotteries st'
         \<and> completed_lotteries st' \<subseteq> insert (sel ! lottery_index st) (completed_lotteries st)"
proof -
  have lab: "truthy s" if "check_lottery_status env k (sel ! lottery_index st) = (s, True)" for k s
    using labelled that by (metis fst_conv snd_conv)
  show ?thesis
    using pi fresh
    by (auto simp: process_item_def Let_def next_lottery_def append_result_def
        dest!: lab process_open_item_next_recorded split: prod.splits sum.splits if_splits)
qed

lemma process_item_break_recorded:
  assumes pi: "process_item env sel st w = (ItemBreak st', w')"
  shows "(lottery_results st' = lottery_results st \<and> completed_lotteries st' = completed_lotteries st)
     \<or> (\<exists>r. lottery_results st' = lottery_results st @ [r] \<and> lottery r = sel ! lottery_index st
           \<and> completed_lotteries st \<subseteq> completed_lotteries st'
           \<and> completed_lotteries st' \<subseteq> insert (sel ! lottery_index st) (completed_lotteries st))"
  using pi
  by (auto simp: process_item_def Let_def next_lottery_def append_result_def
      dest!: process_open_item_break_recorded split: prod.splits sum.splits if_splits)


lemma items_loop_prefix:
  "distinct sel
   \<Longrightarrow> \<forall>n\<in>set sel. \<forall>j. snd (check_lottery_status env j n) \<longrightarrow> truthy (fst (check_lottery_status env j n))
   \<Longrightarrow> items_loop env sel st w = (Inr st', w')
   \<Longrightarrow> lottery_index st \<le> length sel
   \<Longrightarrow> map lottery (lottery_results st) = take (max k (lottery_index st)) sel
   \<Longrightarrow> set (take k sel) \<subseteq> completed_lotteries st
   \<Longrightarrow> completed_lotteries st \<subseteq> set (take (max k (lottery_index st)) sel)
   \<Longrightarrow> \<not> reload_occurred st
   \<Longrightarrow> (\<exists>k'. map lottery (lottery_results st') = take k' sel
             \<and> completed_lotteries st' \<subseteq> set (take k' sel))
       \<and> (\<not> reload_occurred st' \<longrightarrow> map lottery (lottery_results st') = sel)"
proof (induction env sel st w rule: items_loop.induct)
  case (1 env sel st w)
  let ?i = "lottery_index st"
  let ?n = "sel ! ?i"
  show ?case
  proof (cases "?i < length sel")
    case False
    with "1.prems"(4) have "?i = length sel"
      by simp
    with "1.prems"(3,5,7) False show ?thesis
      by (auto simp: items_loop.simps intro!: exI [where x = "length sel"])
  next
    case True
    obtain x w1 where pi: "process_item env sel st w = (x, w1)"
      by (cases "process_item env sel st w")
    have labelled: "\<forall>j. snd (check_lottery_status env j ?n) \<longrightarrow> truthy (fst (check_lottery_status env j ?n))"
      using "1.prems"(2) True by simp
    show ?thesis
    proof (cases "?n \<in> completed_lotteries st")
      case member: True
      with "1.prems"(7) have "?n \<in> set (take (max k ?i) sel)"
        by blast
      with nth_in_take [OF "1.prems"(1) True] have ik: "?i < k"
        by auto
      from process_item_skip [OF pi member] show ?thesis
      proof (elim disjE exE conjE)
        fix e assume "x = ItemRaise e"
        with pi True "1.prems"(3) show ?thesis
          by (simp add: items_loop.simps)
      next
        fix st1
        assume x: "x = ItemNext st1" and keep: "lottery_results st1 = lottery_results st"
          "completed_lotteries st1 = completed_lotteries st"
        with pi True "1.prems"(3) have run: "items_loop env sel st1 w1 = (Inr st', w')"
          by (simp add: items_loop.simps)
        from process_item_next pi x
        have idx: "lottery_index st1 = Suc ?i" and rel: "reload_occurred st1 = reload_occurred st"
          by blast+
        have m: "max k (lottery_index st1) = max k ?i"
          using ik idx by simp
        show ?thesis
          by (rule "1.IH" [OF True pi [symmetric] x "1.prems"(1,2) run])
             (use True idx m keep rel "1.prems"(5-8) in simp_all)
      qed
    next
      case fresh: False
      have ki: "k \<le> ?i"
      proof (rule ccontr)
        assume "\<not> k \<le> ?i"
        with nth_in_take [OF "1.prems"(1) True, of k] have "?n \<in> set (take k sel)"
          by simp
        with "1.prems"(6) fresh show False
          by blast
      qed
      then have mi: "max k ?i = ?i" "max k (Suc ?i) = Suc ?i"
        by simp_all
      have tk: "take (Suc ?i) sel = take ?i sel @ [?n]"
        using True by (simp add: take_Suc_conv_app_nth)
      show ?thesis
      proof (cases x)
        case (ItemNext st1)
        with pi True "1.prems"(3) have run: "items_loop env sel st1 w1 = (Inr st', w')"
          by (simp add: items_loop.simps)
        from process_item_next pi ItemNext
        have idx: "lottery_index st1 = Suc ?i" and rel: "reload_occurred st1 = reload_occurred st"
          by blast+
        from process_item_next_recorded [OF _ labelled fresh] pi ItemNext
        obtain r where r: "lottery_results st1 = lottery_results st @ [r]" "lottery r = ?n"
            "completed_lotteries st \<subseteq> completed_lotteries st1"
            "completed_lotteries st1 \<subseteq> insert ?n (completed_lotteries st)"
          by blast
        have a: "map lottery (lottery_results st1) = take (max k (lottery_index st1)) sel"
          using r(1,2) "1.prems"(5) idx mi tk by simp
        have b: "set (take k sel) \<subseteq> completed_lotteries st1"
          using r(3) "1.prems"(6) by blast
        have c: "completed_lotteries st1 \<subseteq> set (take (max k (lottery_index st1)) sel)"
          using r(4) "1.prems"(7) idx mi tk by auto
        show ?thesis
          by (rule "1.IH" [OF True pi [symmetric] ItemNext "1.prems"(1,2) run _ a b c])
             (use True idx rel "1.prems"(8) in simp_all)
      next
        case (ItemBreak st1)
        with pi True "1.prems"(3) have same: "st' = st1"
          by (simp add: items_loop.simps)
        from process_item_break pi ItemBreak same have rel: "reload_occurred st'"
          by blast
        from process_item_break_recorded pi ItemBreak same
        consider "lottery_results st' = lottery_results st" "completed_lotteries st' = completed_lotteries st"
          | r where "lottery_results st' = lottery_results st @ [r]" "lottery r = ?n"
              "completed_lotteries st' \<subseteq> insert ?n (completed_lotteries st)"
          by blast
        then show ?thesis
        proof cases
          case 1
          with "1.prems"(5,7) mi rel show ?thesis
            by (auto intro!: exI [where x = ?i])
        next
          case 2
          have "map lottery (lottery_results st') = take (Suc ?i) sel"
            using 2(1,2) "1.prems"(5) mi tk by simp
          moreover have "completed_lotteries st' \<subseteq> set (take (Suc ?i) sel)"
          proof -
            have "insert ?n (completed_lotteries st) \<subseteq> set (take (Suc ?i) sel)"
              using "1.prems"(7) mi tk by auto
            with 2(3) show ?thesis
              by blast
          qed
          ultimately show ?thesis
            using rel by blast
        qed
      next
        case (ItemRaise e)
        with pi True "1.prems"(3) show ?thesis
          by (simp add: items_loop.simps)
      qed
    qed
  qed
qed

lemma reverify_open_recorded:
  "reverify_open env sel b st w = (Inr (b', st'), w')
   \<Longrightarrow> map lottery (lottery_results st') = map lottery (lottery_results st)
     \<and> completed_lotteries st' \<subseteq> completed_lotteries st"
  using reverify_open_lottery reverify_open_shrinks by blast

lemma final_verification_recorded:
  "final_verification env sel b st w = (Inr (b', st'), w')
   \<Longrightarrow> map lottery (lottery_results st') = map lottery (lottery_results st)
     \<and> completed_lotteries st' \<subseteq> completed_lotteries st"
  using final_verification_lottery final_verification_shrinks by blast

lemma completed_check_recorded:
  "completed_check env sel st w = (Inr x, w')
   \<Longrightarrow> x = ContinueA st' \<or> x = BreakA st' \<or> x = Proceed st'
   \<Longrightarrow> map lottery (lottery_results st') = map lottery (lottery_results st)
     \<and> completed_lotteries st' \<subseteq> completed_lotteries st"
  by (auto simp: completed_check_def Let_def dest!: reverify_open_recorded
      split: prod.splits sum.splits if_splits)

lemma final_status_block_recorded:
  "final_status_block env sel st w = (Inr x, w')
   \<Longrightarrow> x = Continue st' \<or> x = Break st'
   \<Longrightarrow> map lottery (lottery_results st') = map lottery (lottery_results st)
     \<and> completed_lotteries st' \<subseteq> completed_lotteries st"
  by (auto simp: final_status_block_def Let_def dest!: final_verification_recorded
      split: prod.splits sum.splits if_splits)

lemma after_pass_recorded:
  assumes ap: "after_pass env sel st w = (Inr x, w')"
      and x: "x = Continue st' \<or> x = Break st'"
  shows "map lottery (lottery_results st') = map lottery (lottery_results st)
     \<and> completed_lotteries st' \<subseteq> completed_lotteries st
     \<and> (x = Break st' \<longrightarrow> \<not> reload_occurred st)"
proof (cases "reload_occurred st")
  case True
  with ap x show ?thesis
    by (auto simp: after_pass_def)
next
  case False
  show ?thesis
  proof (cases "length sel \<le> checked_count st")
    case short: False
    with ap x \<open>\<not> reload_occurred st\<close> show ?thesis
      by (auto simp: after_pass_def)
  next
    case True
    obtain y w1 where cc: "completed_check env sel st w = (y, w1)"
      by (cases "completed_check env sel st w")
    show ?thesis
    proof (cases y)
      case (Inl e)
      with ap cc True False show ?thesis
        by (simp add: after_pass_def)
    next
      case (Inr z)
      with cc have cc': "completed_check env sel st w = (Inr z, w1)"
        by simp
      show ?thesis
      proof (cases z)
        case (ContinueA st1)
        with ap cc Inr True False x have "st' = st1"
          by (auto simp: after_pass_def)
        with completed_check_recorded [OF cc', of st1] ContinueA False show ?thesis
          by simp
      next
        case (BreakA st1)
        with ap cc Inr True False x have "st' = st1"
          by (auto simp: after_pass_def)
        with completed_check_recorded [OF cc', of st1] BreakA False show ?thesis
          by simp
      next
        case (Proceed st1)
        from completed_check_recorded [OF cc', of st1] Proceed
        have a: "map lottery (lottery_results st1) = map lottery (lottery_results st)"
            "completed_lotteries st1 \<subseteq> completed_lotteries st"
          by simp_all
        show ?thesis
        proof (cases "length sel \<le> checked_count st1")
          case False
          with ap cc Inr True \<open>\<not> reload_occurred st\<close> Proceed x a show ?thesis
            by (auto simp: after_pass_def)
        next
          case len: True
          with ap cc Inr True False Proceed
          have fb: "final_status_block env sel st1 w1 = (Inr x, w')"
            by (simp add: after_pass_def)
          from final_status_block_recorded [OF fb x] a False show ?thesis
            by auto
        qed
      qed
    qed
  qed
qed

lemma one_pass_prefix:
  assumes pass: "one_pass env sel st w = (Inr x, w')"
      and x: "x = Continue st' \<or> x = Break st'"
      and d: "distinct sel"
      and labelled: "\<forall>n\<in>set sel. \<forall>j. snd (check_lottery_status env j n)
                       \<longrightarrow> truthy (fst (check_lottery_status env j n))"
      and prefix: "map lottery (lottery_results st) = take k sel"
      and settled: "settled st"
      and recorded: "completed_lotteries st \<subseteq> set (take k sel)"
  shows "(\<exists>k'. map lottery (lottery_results st') = take k' sel
             \<and> completed_lotteries st' \<subseteq> set (take k' sel))
       \<and> (x = Break st' \<longrightarrow> map lottery (lottery_results st') = sel)"
proof -
  let ?st0 = "st\<lparr>reload_occurred := False, lottery_index := 0, checked_count := 0\<rparr>"
  from pass obtain w3 st1 w4 where
    il: "items_loop env sel ?st0 w3 = (Inr st1, w4)" and
    ap: "after_pass env sel st1 w4 = (Inr x, w')"
    by (auto simp: one_pass_def Let_def split: prod.splits sum.splits)
  have "set (take k sel) = lottery ` set (lottery_results st)"
    using prefix by (metis set_map)
  with settled have covered: "set (take k sel) \<subseteq> completed_lotteries ?st0"
    by (simp add: settled_def)
  have loop: "(\<exists>k'. map lottery (lottery_results st1) = take k' sel
             \<and> completed_lotteries st1 \<subseteq> set (take k' sel))
       \<and> (\<not> reload_occurred st1 \<longrightarrow> map lottery (lottery_results st1) = sel)"
    by (rule items_loop_prefix [OF d labelled il, of k])
       (use prefix covered recorded in simp_all)
  from loop obtain k' where k': "map lottery (lottery_results st1) = take k' sel"
      "completed_lotteries st1 \<subseteq> set (take k' sel)"
    by blast
  from after_pass_recorded [OF ap x]
  have keep: "map lottery (lottery_results st') = map lottery (lottery_results st1)"
      "completed_lotteries st' \<subseteq> completed_lotteries st1"
      "x = Break st' \<longrightarrow> \<not> reload_occurred st1"
    by simp_all
  have "map lottery (lottery_results st') = take k' sel"
      "completed_lotteries st' \<subseteq> set (take k' sel)"
    using k' keep(1,2) by auto
  moreover have "x = Break st' \<longrightarrow> map lottery (lottery_results st') = sel"
    using keep(1,3) loop by simp
  ultimately show ?thesis
    by blast
qed

lemma retry_loop_one_entry:
  "retry_loop env sel st w = (Inr st', w')
   \<Longrightarrow> distinct sel
   \<Longrightarrow> \<forall>n\<in>set sel. \<forall>j. snd (check_lottery_status env j n) \<longrightarrow> truthy (fst (check_lottery_status env j n))
   \<Longrightarrow> \<exists>k. map lottery (lottery_results st) = take k sel \<and> completed_lotteries st \<subseteq> set (take k sel)
   \<Longrightarrow> settled st
   \<Longrightarrow> \<forall>s\<in>set (restart_states env sel st w). settled s
   \<Longrightarrow> length (restart_states env sel st w) + retry_attempt st < max_retry_attempts
   \<Longrightarrow> map lottery (lottery_results st') = sel"
proof (induction env sel st w rule: retry_loop.induct)
  case (1 env sel st w)
  from "1.prems"(7) have lt: "retry_attempt st < max_retry_attempts"
    by simp
  obtain x w1 where op: "one_pass env sel st w = (x, w1)"
    by (cases "one_pass env sel st w")
  from "1.prems"(4) obtain k where k: "map lottery (lottery_results st) = take k sel"
      "completed_lotteries st \<subseteq> set (take k sel)"
    by blast
  show ?case
  proof (cases x)
    case (Inl e)
    with op lt "1.prems"(1) show ?thesis
      by (simp add: retry_loop.simps)
  next
    case (Inr y)
    with op have pass: "one_pass env sel st w = (Inr y, w1)"
      by simp
    show ?thesis
    proof (cases y)
      case (Continue st1)
      with op lt Inr "1.prems"(1) have run: "retry_loop env sel st1 w1 = (Inr st', w')"
        by (simp add: retry_loop.simps)
      have rs: "restart_states env sel st w = st1 # restart_states env sel st1 w1"
        using op lt Inr Continue by (subst restart_states.simps) simp
      from one_pass_continue op Inr Continue have "retry_attempt st1 = Suc (retry_attempt st)"
        by blast
      with rs "1.prems"(7)
      have n: "length (restart_states env sel st1 w1) + retry_attempt st1 < max_retry_attempts"
        by simp
      from rs "1.prems"(6) have s1: "settled st1"
          and later: "\<forall>s\<in>set (restart_states env sel st1 w1). settled s"
        by simp_all
      from one_pass_prefix [OF pass _ "1.prems"(2,3) k(1) "1.prems"(5) k(2), of st1] Continue
      have p1: "\<exists>k. map lottery (lottery_results st1) = take k sel
                  \<and> completed_lotteries st1 \<subseteq> set (take k sel)"
        by simp
      from "1.IH" [OF lt op [symmetric] Inr Continue run "1.prems"(2,3) p1 s1 later n]
      show ?thesis .
    next
      case (Break st1)
      with op lt Inr "1.prems"(1) have "st' = st1"
        by (simp add: retry_loop.simps)
      with one_pass_prefix [OF pass _ "1.prems"(2,3) k(1) "1.prems"(5) k(2), of st1] Break
      show ?thesis
        by simp
    qed
  qed
qed

lemma process_item_within:
  "process_item env sel st w = (x, w') \<Longrightarrow> x = ItemNext st' \<or> x = ItemBreak st'
   \<Longrightarrow> lottery_index st < length sel
   \<Longrightarrow> lottery ` set (lottery_results st) \<subseteq> set sel
   \<Longrightarrow> lottery ` set (lottery_results st') \<subseteq> set sel"
  by (auto simp: process_item_def process_open_item_def Let_def next_lottery_def
      append_result_def restart_after_reload_def image_subset_iff
      split: prod.splits sum.splits entry_outcome.splits bool.splits if_splits)

lemma one_pass_within:
  assumes pass: "one_pass env sel st w = (Inr x, w')"
      and x: "x = Continue st' \<or> x = Break st'"
      and within: "lottery ` set (lottery_results st) \<subseteq> set sel"
  shows "lottery ` set (lottery_results st') \<subseteq> set sel"
proof -
  let ?st0 = "st\<lparr>reload_occurred := False, lottery_index := 0, checked_count := 0\<rparr>"
  from pass obtain w3 st1 w4 where
    il: "items_loop env sel ?st0 w3 = (Inr st1, w4)" and
    ap: "after_pass env sel st1 w4 = (Inr x, w')"
    by (auto simp: one_pass_def Let_def split: prod.splits sum.splits)
  have "lottery ` set (lottery_results st1) \<subseteq> set sel"
    by (rule items_loop_within [OF il]) (use within in simp)
  moreover from after_pass_recorded [OF ap x]
  have "map lottery (lottery_results st') = map lottery (lottery_results st1)"
    by simp
  then have "lottery ` set (lottery_results st') = lottery ` set (lottery_results st1)"
    by (metis set_map)
  ultimately show ?thesis
    by simp
qed

text \<open>An item recorded twice stays recorded twice.\<close>

lemma items_loop_repeated:
  "items_loop env sel st w = (Inr st', w')
   \<Longrightarrow> \<not> distinct (map lottery (lottery_results st))
   \<Longrightarrow> \<not> distinct (map lottery (lottery_results st'))"
proof (induction env sel st w rule: items_loop.induct)
  case (1 env sel st w)
  show ?case
  proof (cases "lottery_index st < length sel")
    case False
    with "1.prems" show ?thesis
      by (simp add: items_loop.simps)
  next
    case True
    have step: "\<not> distinct (map lottery (lottery_results st1))"
      if "process_item env sel st w = (x, w1)" "x = ItemNext st1 \<or> x = ItemBreak st1" for x w1 st1
      using that "1.prems"(2)
      by (auto simp: process_item_def process_open_item_def Let_def next_lottery_def
          append_result_def restart_after_reload_def
          split: prod.splits sum.splits entry_outcome.splits bool.splits if_splits)
    obtain x w1 where pi: "process_item env sel st w = (x, w1)"
      by (cases "process_item env sel st w")
    show ?thesis
    proof (cases x)
      case (ItemNext st1)
      with pi True "1.prems" have run: "items_loop env sel st1 w1 = (Inr st', w')"
        by (simp add: items_loop.simps)
      from "1.IH" [OF True pi [symmetric] ItemNext run] step [OF pi] ItemNext show ?thesis
        by blast
    next
      case (ItemBreak st1)
      with pi True "1.prems" have "st' = st1"
        by (simp add: items_loop.simps)
      with step [OF pi] ItemBreak show ?thesis
        by blast
    next
      case (ItemRaise e)
      with pi True "1.prems" show ?thesis
        by (simp add: items_loop.simps)
    qed
  qed
qed

text \<open>
  An item that is recorded but not in the completed set when its turn comes is recorded
  again, or the pass is left for a restart with the item still not completed.
\<close>

lemma items_loop_pending:
  "distinct sel
   \<Longrightarrow> \<forall>n\<in>set sel. \<forall>j. snd (check_lottery_status env j n) \<longrightarrow> truthy (fst (check_lottery_status env j n))
   \<Longrightarrow> items_loop env sel st w = (Inr st', w')
   \<Longrightarrow> \<not> distinct (map lottery (lottery_results st))
       \<or> (\<exists>m\<in>set (drop (lottery_index st) sel).
             m \<in> lottery ` set (lottery_results st) \<and> m \<notin> completed_lotteries st)
   \<Longrightarrow> (\<not> distinct (map lottery (lottery_results st')) \<or> \<not> settled st')
     \<and> (\<not> reload_occurred st' \<longrightarrow> \<not> distinct (map lottery (lottery_results st')))"
proof (induction env sel st w rule: items_loop.induct)
  case (1 env sel st w)
  let ?i = "lottery_index st"
  let ?n = "sel ! ?i"
  show ?case
  proof (cases "distinct (map lottery (lottery_results st))")
    case False
    with items_loop_repeated [OF "1.prems"(3)] show ?thesis
      by simp
  next
    case d: True
    with "1.prems"(4) obtain m where m: "m \<in> set (drop ?i sel)"
        "m \<in> lottery ` set (lottery_results st)" "m \<notin> completed_lotteries st"
      by blast
    then have lt: "?i < length sel"
      by (cases "?i < length sel") auto
    have dr: "drop ?i sel = ?n # drop (Suc ?i) sel"
      using lt by (simp add: Cons_nth_drop_Suc)
    obtain x w1 where pi: "process_item env sel st w = (x, w1)"
      by (cases "process_item env sel st w")
    have labelled: "\<forall>j. snd (check_lottery_status env j ?n) \<longrightarrow> truthy (fst (check_lottery_status env j ?n))"
      using "1.prems"(2) lt by simp
    show ?thesis
    proof (cases x)
      case (ItemRaise e)
      with pi lt "1.prems"(3) show ?thesis
        by (simp add: items_loop.simps)
    next
      case (ItemBreak st1)
      with pi lt "1.prems"(3) have same: "st' = st1"
        by (simp add: items_loop.simps)
      from process_item_break pi ItemBreak same have rel: "reload_occurred st'"
        by blast
      from process_item_break_recorded pi ItemBreak same
      consider "lottery_results st' = lottery_results st" "completed_lotteries st' = completed_lotteries st"
        | r where "lottery_results st' = lottery_results st @ [r]" "lottery r = ?n"
            "completed_lotteries st' \<subseteq> insert ?n (completed_lotteries st)"
        by blast
      then show ?thesis
      proof cases
        case 1
        with m rel show ?thesis
          by (auto simp: settled_def)
      next
        case 2
        show ?thesis
        proof (cases "m = ?n")
          case True
          with 2 m(2) rel show ?thesis
            by auto
        next
          case False
          with 2 m rel show ?thesis
            by (auto simp: settled_def)
        qed
      qed
    next
      case (ItemNext st1)
      with pi lt "1.prems"(3) have run: "items_loop env sel st1 w1 = (Inr st', w')"
        by (simp add: items_loop.simps)
      from process_item_next pi ItemNext have idx: "lottery_index st1 = Suc ?i"
        by blast
      have next_state: "\<not> distinct (map lottery (lottery_results st1))
          \<or> (\<exists>m\<in>set (drop (lottery_index st1) sel).
                m \<in> lottery ` set (lottery_results st1) \<and> m \<notin> completed_lotteries st1)"
      proof (cases "?n \<in> completed_lotteries st")
        case True
        with m(3) have ne: "m \<noteq> ?n"
          by auto
        from process_item_skip [OF pi True] ItemNext
        have "lottery_results st1 = lottery_results st" "completed_lotteries st1 = completed_lotteries st"
          by auto
        with m ne dr idx show ?thesis
          by auto
      next
        case fresh: False
        from process_item_next_recorded [OF _ labelled fresh] pi ItemNext
        obtain r where r: "lottery_results st1 = lottery_results st @ [r]" "lottery r = ?n"
            "completed_lotteries st1 \<subseteq> insert ?n (completed_lotteries st)"
          by blast
        show ?thesis
        proof (cases "m = ?n")
          case True
          with r m(2) show ?thesis
            by auto
        next
          case False
          with m dr have "m \<in> set (drop (Suc ?i) sel)"
            by simp
          moreover from r(1) m(2) have "m \<in> lottery ` set (lottery_results st1)"
            by auto
          moreover from r(3) m(3) False have "m \<notin> completed_lotteries st1"
            by auto
          ultimately show ?thesis
            using idx by auto
        qed
      qed
      from "1.IH" [OF lt pi [symmetric] ItemNext "1.prems"(1,2) run next_state] show ?thesis .
    qed
  qed
qed


lemma one_pass_pending:
  assumes pass: "one_pass env sel st w = (Inr x, w')"
      and x: "x = Continue st' \<or> x = Break st'"
      and d: "distinct sel"
      and labelled: "\<forall>n\<in>set sel. \<forall>j. snd (check_lottery_status env j n)
                       \<longrightarrow> truthy (fst (check_lottery_status env j n))"
      and within: "lottery ` set (lottery_results st) \<subseteq> set sel"
      and pending: "\<not> distinct (map lottery (lottery_results st)) \<or> \<not> settled st"
  shows "(\<not> distinct (map lottery (lottery_results st')) \<or> \<not> settled st')
       \<and> (x = Break st' \<longrightarrow> \<not> distinct (map lottery (lottery_results st')))"
proof -
  let ?st0 = "st\<lparr>reload_occurred := False, lottery_index := 0, checked_count := 0\<rparr>"
  from pass obtain w3 st1 w4 where
    il: "items_loop env sel ?st0 w3 = (Inr st1, w4)" and
    ap: "after_pass env sel st1 w4 = (Inr x, w')"
    by (auto simp: one_pass_def Let_def split: prod.splits sum.splits)
  have start: "\<not> distinct (map lottery (lottery_results ?st0))
       \<or> (\<exists>m\<in>set (drop (lottery_index ?st0) sel).
             m \<in> lottery ` set (lottery_results ?st0) \<and> m \<notin> completed_lotteries ?st0)"
    using pending within by (auto simp: settled_def)
  from items_loop_pending [OF d labelled il start]
  have loop: "\<not> distinct (map lottery (lottery_results st1)) \<or> \<not> settled st1"
      "\<not> reload_occurred st1 \<longrightarrow> \<not> distinct (map lottery (lottery_results st1))"
    by simp_all
  from after_pass_recorded [OF ap x]
  have keep: "map lottery (lottery_results st') = map lottery (lottery_results st1)"
      "completed_lotteries st' \<subseteq> completed_lotteries st1"
      "x = Break st' \<longrightarrow> \<not> reload_occurred st1"
    by simp_all
  from keep(1) have img: "lottery ` set (lottery_results st') = lottery ` set (lottery_results st1)"
    by (metis set_map)
  have "\<not> settled st'" if "\<not> settled st1"
    using that keep(2) img by (auto simp: settled_def)
  with loop keep show ?thesis
    by auto
qed

lemma retry_loop_pending:
  "retry_loop env sel st w = (Inr st', w')
   \<Longrightarrow> distinct sel
   \<Longrightarrow> \<forall>n\<in>set sel. \<forall>j. snd (check_lottery_status env j n) \<longrightarrow> truthy (fst (check_lottery_status env j n))
   \<Longrightarrow> lottery ` set (lottery_results st) \<subseteq> set sel
   \<Longrightarrow> \<not> distinct (map lottery (lottery_results st)) \<or> \<not> settled st
   \<Longrightarrow> length (restart_states env sel st w) + retry_attempt st < max_retry_attempts
   \<Longrightarrow> \<not> distinct (map lottery (lottery_results st'))"
proof (induction env sel st w rule: retry_loop.induct)
  case (1 env sel st w)
  from "1.prems"(6) have lt: "retry_attempt st < max_retry_attempts"
    by simp
  obtain x w1 where op: "one_pass env sel st w = (x, w1)"
    by (cases "one_pass env sel st w")
  show ?case
  proof (cases x)
    case (Inl e)
    with op lt "1.prems"(1) show ?thesis
      by (simp add: retry_loop.simps)
  next
    case (Inr y)
    with op have pass: "one_pass env sel st w = (Inr y, w1)"
      by simp
    show ?thesis
    proof (cases y)
      case (Continue st1)
      with op lt Inr "1.prems"(1) have run: "retry_loop env sel st1 w1 = (Inr st', w')"
        by (simp add: retry_loop.simps)
      have rs: "restart_states env sel st w = st1 # restart_states env sel st1 w1"
        using op lt Inr Continue by (subst restart_states.simps) simp
      from one_pass_continue op Inr Continue have "retry_attempt st1 = Suc (retry_attempt st)"
        by blast
      with rs "1.prems"(6)
      have n: "length (restart_states env sel st1 w1) + retry_attempt st1 < max_retry_attempts"
        by simp
      from one_pass_within [OF pass _ "1.prems"(4), of st1] Continue
      have w1: "lottery ` set (lottery_results st1) \<subseteq> set sel"
        by simp
      from one_pass_pending [OF pass _ "1.prems"(2,3,4,5), of st1] Continue
      have p1: "\<not> distinct (map lottery (lottery_results st1)) \<or> \<not> settled st1"
        by simp
      from "1.IH" [OF lt op [symmetric] Inr Continue run "1.prems"(2,3) w1 p1 n]
      show ?thesis .
    next
      case (Break st1)
      with op lt Inr "1.prems"(1) have "st' = st1"
        by (simp add: retry_loop.simps)
      with one_pass_pending [OF pass _ "1.prems"(2,3,4,5), of st1] Break
      show ?thesis
        by simp
    qed
  qed
qed

lemma retry_loop_unsettled:
  "retry_loop env sel st w = (Inr st', w')
   \<Longrightarrow> distinct sel
   \<Longrightarrow> \<forall>n\<in>set sel. \<forall>j. snd (check_lottery_status env j n) \<longrightarrow> truthy (fst (check_lottery_status env j n))
   \<Longrightarrow> lottery ` set (lottery_results st) \<subseteq> set sel
   \<Longrightarrow> \<exists>s\<in>set (restart_states env sel st w). \<not> settled s
   \<Longrightarrow> length (restart_states env sel st w) + retry_attempt st < max_retry_attempts
   \<Longrightarrow> \<not> distinct (map lottery (lottery_results st'))"
proof (induction env sel st w rule: retry_loop.induct)
  case (1 env sel st w)
  from "1.prems"(6) have lt: "retry_attempt st < max_retry_attempts"
    by simp
  obtain x w1 where op: "one_pass env sel st w = (x, w1)"
    by (cases "one_pass env sel st w")
  show ?case
  proof (cases x)
    case (Inl e)
    with op lt "1.prems"(1) show ?thesis
      by (simp add: retry_loop.simps)
  next
    case (Inr y)
    with op have pass: "one_pass env sel st w = (Inr y, w1)"
      by simp
    show ?thesis
    proof (cases y)
      case (Continue st1)
      with op lt Inr "1.prems"(1) have run: "retry_loop env sel st1 w1 = (Inr st', w')"
        by (simp add: retry_loop.simps)
      have rs: "restart_states env sel st w = st1 # restart_states env sel st1 w1"
        using op lt Inr Continue by (subst restart_states.simps) simp
      from one_pass_continue op Inr Continue have "retry_attempt st1 = Suc (retry_attempt st)"
        by blast
      with rs "1.prems"(6)
      have n: "length (restart_states env sel st1 w1) + retry_attempt st1 < max_retry_attempts"
        by simp
      from one_pass_within [OF pass _ "1.prems"(4), of st1] Continue
      have w1: "lottery ` set (lottery_results st1) \<subseteq> set sel"
        by simp
      show ?thesis
      proof (cases "settled st1")
        case False
        then have "\<not> distinct (map lottery (lottery_results st1)) \<or> \<not> settled st1"
          by simp
        from retry_loop_pending [OF run "1.prems"(2,3) w1 this n] show ?thesis .
      next
        case True
        with rs "1.prems"(5) have later: "\<exists>s\<in>set (restart_states env sel st1 w1). \<not> settled s"
          by simp
        from "1.IH" [OF lt op [symmetric] Inr Continue run "1.prems"(2,3) w1 later n]
        show ?thesis .
      qed
    next
      case (Break st1)
      have "restart_states env sel st w = []"
        using op lt Inr Break by (subst restart_states.simps) simp
      with "1.prems"(5) show ?thesis
        by simp
    qed
  qed
qed

lemma retry_loop_initial_segment:
  "retry_loop env sel st w = (Inr st', w')
   \<Longrightarrow> distinct sel
   \<Longrightarrow> \<forall>n\<in>set sel. \<forall>j. snd (check_lottery_status env j n) \<longrightarrow> truthy (fst (check_lottery_status env j n))
   \<Longrightarrow> \<exists>k. map lottery (lottery_results st) = take k sel \<and> completed_lotteries st \<subseteq> set (take k sel)
   \<Longrightarrow> settled st
   \<Longrightarrow> \<forall>s\<in>set (restart_states env sel st w). settled s
   \<Longrightarrow> \<exists>k. map lottery (lottery_results st') = take k sel"
proof (induction env sel st w rule: retry_loop.induct)
  case (1 env sel st w)
  from "1.prems"(4) obtain k where k: "map lottery (lottery_results st) = take k sel"
      "completed_lotteries st \<subseteq> set (take k sel)"
    by blast
  show ?case
  proof (cases "retry_attempt st < max_retry_attempts")
    case False
    with "1.prems"(1) k(1) show ?thesis
      by (auto simp: retry_loop.simps)
  next
    case lt: True
    obtain x w1 where op: "one_pass env sel st w = (x, w1)"
      by (cases "one_pass env sel st w")
    show ?thesis
    proof (cases x)
      case (Inl e)
      with op lt "1.prems"(1) show ?thesis
        by (simp add: retry_loop.simps)
    next
      case (Inr y)
      with op have pass: "one_pass env sel st w = (Inr y, w1)"
        by simp
      show ?thesis
      proof (cases y)
        case (Continue st1)
        with op lt Inr "1.prems"(1) have run: "retry_loop env sel st1 w1 = (Inr st', w')"
          by (simp add: retry_loop.simps)
        have rs: "restart_states env sel st w = st1 # restart_states env sel st1 w1"
          using op lt Inr Continue by (subst restart_states.simps) simp
        from rs "1.prems"(6) have s1: "settled st1"
            and later: "\<forall>s\<in>set (restart_states env sel st1 w1). settled s"
          by simp_all
        from one_pass_prefix [OF pass _ "1.prems"(2,3) k(1) "1.prems"(5) k(2), of st1] Continue
        have p1: "\<exists>k. map lottery (lottery_results st1) = take k sel
                    \<and> completed_lotteries st1 \<subseteq> set (take k sel)"
          by simp
        from "1.IH" [OF lt op [symmetric] Inr Continue run "1.prems"(2,3) p1 s1 later]
        show ?thesis .
      next
        case (Break st1)
        with op lt Inr "1.prems"(1) have "st' = st1"
          by (simp add: retry_loop.simps)
        with one_pass_prefix [OF pass _ "1.prems"(2,3) k(1) "1.prems"(5) k(2), of st1] Break
        show ?thesis
          by blast
      qed
    qed
  qed
qed

text \<open>
  Claim C2, as amended. When every selected item that exists shows a non-empty status
  label, and the batch ends before its retries are exhausted (fewer than ten restarts),
  the result list holds exactly one entry per selected number, in ascending order of the
  distinct numbers, if and only if at each restart every item recorded so far is in the
  completed set. When that holds at each restart, a batch that exhausts its retries
  still records an initial segment of the selection, one entry per number.
\<close>

theorem one_entry_per_item:
  assumes labelled: "\<forall>n\<in>set (effective_selection selected). \<forall>j.
                       snd (check_lottery_status env j n) \<longrightarrow> truthy (fst (check_lottery_status env j n))"
      and run: "retry_loop env (effective_selection selected) initial_state w = (Inr st, w')"
  shows "process_all_lotteries env selected w =
           (Inr \<lparr> results = lottery_results st, final_status = final_status_v st,
                  message = final_message st \<rparr>, w')
       \<and> (length (restart_states env (effective_selection selected) initial_state w) < max_retry_attempts
            \<longrightarrow> (map lottery (lottery_results st) = effective_selection selected)
                = (\<forall>s\<in>set (restart_states env (effective_selection selected) initial_state w). settled s))
       \<and> ((\<forall>s\<in>set (restart_states env (effective_selection selected) initial_state w). settled s)
            \<longrightarrow> (\<exists>k. map lottery (lottery_results st) = take k (effective_selection selected)))"
proof -
  let ?sel = "effective_selection selected"
  let ?rs = "restart_states env ?sel initial_state w"
  note d = distinct_effective_selection [of selected]
  have a: "map lottery (lottery_results st) = ?sel"
    if "length ?rs < max_retry_attempts" "\<forall>s\<in>set ?rs. settled s"
    by (rule retry_loop_one_entry [OF run d labelled _ _ that(2)])
       (use that(1) in \<open>simp_all add: initial_state_def settled_def\<close>)
  have b: "\<not> distinct (map lottery (lottery_results st))"
    if "length ?rs < max_retry_attempts" "\<not> (\<forall>s\<in>set ?rs. settled s)"
    by (rule retry_loop_unsettled [OF run d labelled])
       (use that in \<open>simp_all add: initial_state_def\<close>)
  have c: "\<exists>k. map lottery (lottery_results st) = take k ?sel" if "\<forall>s\<in>set ?rs. settled s"
    by (rule retry_loop_initial_segment [OF run d labelled _ _ that])
       (simp_all add: initial_state_def settled_def)
  have "(map lottery (lottery_results st) = ?sel) = (\<forall>s\<in>set ?rs. settled s)"
    if "length ?rs < max_retry_attempts"
    using a [OF that] b [OF that] d by metis
  with c run show ?thesis
    by (simp add: process_all_lotteries_def)
qed

text \<open>
  The theorem at a restarted batch, for the selection 2, 1, 2: the first submission of
  item 1 asks for a reload before anything is recorded, the second one succeeds, and
  item 2 is found completed.
\<close>

theorem one_entry_per_item_witness:
  "restart_states reload_then_success_env (effective_selection (Some [2, 1, 2])) initial_state world0
     \<noteq> []
   \<and> map lottery (results (projr (fst (process_all_lotteries reload_then_success_env (Some [2, 1, 2]) world0))))
       = [1, 2]"
proof -
  let ?sel = "effective_selection (Some [2, 1, 2])"
  have labelled: "\<forall>n\<in>set ?sel. \<forall>j. snd (check_lottery_status reload_then_success_env j n)
      \<longrightarrow> truthy (fst (check_lottery_status reload_then_success_env j n))"
    by (simp add: reload_then_success_env_def quiet_browser_def truthy_def label_open_def
        label_completed_def)
  have "\<exists>st w'. retry_loop reload_then_success_env ?sel initial_state world0 = (Inr st, w')"
    by (simp add: literal_defs world_defs handler_defs orch_defs quiet_browser_def
        reload_then_success_env_def)
  then obtain st w' where run:
    "retry_loop reload_then_success_env ?sel initial_state world0 = (Inr st, w')"
    by blast
  have rs: "length (restart_states reload_then_success_env ?sel initial_state world0) = 1
      \<and> (\<forall>s\<in>set (restart_states reload_then_success_env ?sel initial_state world0). settled s)"
    by (simp add: literal_defs world_defs handler_defs orch_defs restart_defs quiet_browser_def
        reload_then_success_env_def)
  then have ended: "length (restart_states reload_then_success_env ?sel initial_state world0)
      < max_retry_attempts"
    and restarts: "\<forall>s\<in>set (restart_states reload_then_success_env ?sel initial_state world0). settled s"
    by (simp_all add: max_retry_attempts_def)
  from rs have "restart_states reload_then_success_env ?sel initial_state world0 \<noteq> []"
    by auto
  with one_entry_per_item [OF labelled run] ended restarts show ?thesis
    by (simp add: effective_selection_def)
qed

text \<open>
  Claim C2 as stated fails: in the batch of \<open>retried_env\<close> the only selected item has
  two entries, one from each pass.
\<close>

theorem retried_item_two_entries_counterexample:
  "map lottery (results (projr (fst (process_all_lotteries retried_env (Some [1]) world0))))
     = [1, 1]"
  by (simp add: literal_defs world_defs handler_defs orch_defs quiet_browser_def retried_env_def)

subsection \<open>The default selection\<close>














section \<open>The batch entry point\<close>

subsection \<open>Exhausted login attempts\<close>

lemma items_untouched_refl [simp]: "items_untouched w w"
  by (simp add: items_untouched_def)

lemma items_untouched_trans: "items_untouched w w1 \<Longrightarrow> items_untouched w1 w2 \<Longrightarrow> items_untouched w w2"
  by (simp add: items_untouched_def)

lemma items_untouched_tick [simp]:
  "c \<noteq> LotteryStatus \<Longrightarrow> c \<noteq> LotteryEntry \<Longrightarrow> items_untouched w (tick c w1) = items_untouched w w1"
  by (simp add: items_untouched_def tick_def)

lemma check_stop_untouched: "check_stop sc w1 = (r, w') \<Longrightarrow> items_untouched w w' = items_untouched w w1"
  by (auto simp: check_stop_def split: option.splits if_splits)

lemma check_stops_untouched: "check_stops n sc w1 = (r, w') \<Longrightarrow> items_untouched w w' = items_untouched w w1"
proof (induction n arbitrary: w1)
  case 0
  then show ?case by simp
next
  case (Suc n)
  obtain r1 w2 where cs: "check_stop sc w1 = (r1, w2)"
    by (cases "check_stop sc w1")
  with check_stop_untouched [OF cs] Suc show ?case
    by (cases r1) auto
qed

lemma otp_response_untouched: "otp_response env w1 = (r, w') \<Longrightarrow> items_untouched w w' = items_untouched w w1"
  by (auto simp: otp_response_def Let_def split: webdriver.splits prod.splits if_splits)

lemma otp_retry_once_untouched:
  "otp_retry_once env w1 = (r, w') \<Longrightarrow> items_untouched w w' = items_untouched w w1"
  unfolding otp_retry_once_def
  by (auto simp: check_stop_untouched check_stops_untouched otp_response_untouched
      split: prod.splits sum.splits otp_outcome.splits if_splits)


lemma otp_retries_untouched:
  "otp_retries env rs w1 = (r, w') \<Longrightarrow> items_untouched w w' = items_untouched w w1"
proof (induction rs arbitrary: w1)
  case Nil
  then show ?case by simp
next
  case (Cons otp_retry rest)
  obtain x w2 where once: "otp_retry_once env w1 = (x, w2)"
    by (cases "otp_retry_once env w1")
  with otp_retry_once_untouched [OF once, of w] Cons show ?case
    by (cases x) (auto split: if_splits)
qed

lemma otp_required_untouched:
  "otp_required env w1 = (r, w') \<Longrightarrow> items_untouched w w' = items_untouched w w1"
  by (auto simp: otp_required_def split: webdriver.splits if_splits)

lemma retry_or_fail_untouched:
  "retry_or_fail env attempt what w1 = (r, w') \<Longrightarrow> items_untouched w w' = items_untouched w w1"
  by (auto simp: retry_or_fail_def split: if_splits)

lemma after_otp_untouched:
  "after_otp env attempt ok w1 = (r, w') \<Longrightarrow> items_untouched w w' = items_untouched w w1"
  by (auto simp: after_otp_def retry_or_fail_untouched split: webdriver.splits if_splits)

lemma without_otp_untouched:
  "without_otp env attempt w1 = (r, w') \<Longrightarrow> items_untouched w w' = items_untouched w w1"
  by (auto simp: without_otp_def retry_or_fail_untouched
      split: webdriver.splits prod.splits if_splits)

lemma login_attempt_untouched:
  "login_attempt env attempt w1 = (r, w') \<Longrightarrow> items_untouched w w' = items_untouched w w1"
  unfolding login_attempt_def
  by (auto simp: check_stop_untouched otp_required_untouched otp_retries_untouched
      after_otp_untouched without_otp_untouched retry_or_fail_untouched
      split: prod.splits sum.splits login_outcome.splits bool.splits if_splits)

lemma retry_or_fail_continue:
  "retry_or_fail env attempt what w = (LoginContinue, w') \<Longrightarrow> attempt < max_login_attempts"
  by (auto simp: retry_or_fail_def split: if_splits)

lemma login_attempt_continue:
  "login_attempt env attempt w = (LoginContinue, w') \<Longrightarrow> attempt < max_login_attempts"
  unfolding login_attempt_def after_otp_def without_otp_def
  by (auto dest: retry_or_fail_continue
      split: prod.splits sum.splits login_outcome.splits bool.splits webdriver.splits if_splits)

text \<open>
  Claim C4. When the first and the second login attempt end in a retry and the third
  neither authenticates nor is stopped, \<^verbatim>\<open>lottery_begin\<close> returns the final status failure
  with an empty result list, and no item has been probed or processed.
\<close>

theorem login_exhausted_aborts:
  assumes a1: "login_attempt env 1 w = (LoginContinue, w1)"
      and a2: "login_attempt env 2 w1 = (LoginContinue, w2)"
      and a3: "login_attempt env 3 w2 = (x3, w3)"
      and unauthenticated: "x3 \<noteq> LoginBreak"
      and not_stopped: "x3 \<noteq> LoginRaise StopIteration"
  shows "\<exists>m. lottery_begin env selected w =
           (\<lparr> results = [], final_status = st_failure,
               message = msg_login_error_prefix @ take 100 m \<rparr>, w3)
       \<and> w3 LotteryStatus = w LotteryStatus \<and> w3 LotteryEntry = w LotteryEntry"
proof -
  have "x3 \<noteq> LoginContinue"
    using login_attempt_continue [of env 3 w2 w3] a3 by (auto simp: max_login_attempts_def)
  with unauthenticated not_stopped obtain m where x3: "x3 = LoginRaise (Exception m)"
  proof (cases x3)
    case (LoginRaise e)
    with not_stopped that show ?thesis
      by (cases e) auto
  qed auto
  have att: "[1..max_login_attempts] = [1, 2, 3]"
    by (simp add: max_login_attempts_def upto_rec1)
  have "login_attempts env [1..max_login_attempts] w = (Inl (Exception m), w3)"
    using a1 a2 a3 x3 by (simp add: att)
  then have "lottery_begin env selected w =
           (\<lparr> results = [], final_status = st_failure,
               message = msg_login_error_prefix @ take 100 m \<rparr>, w3)"
    by (simp add: lottery_begin_def lottery_begin_body_def)
  moreover have "items_untouched w w3"
    using login_attempt_untouched [OF a1, of w] login_attempt_untouched [OF a2, of w]
      login_attempt_untouched [OF a3, of w] by simp
  ultimately show ?thesis
    by (auto simp: items_untouched_def)
qed

text \<open>The theorem at the session whose login attempts are all rejected.\<close>

theorem login_exhausted_aborts_witness:
  "\<exists>m. lottery_begin rejected_login_env [1, 2] world0 =
         (\<lparr> results = [], final_status = st_failure,
             message = msg_login_error_prefix @ take 100 m \<rparr>,
          tick LoginAttempt (tick LoginAttempt (tick LoginAttempt world0)))"
proof -
  let ?w1 = "tick LoginAttempt world0"
  let ?w2 = "tick LoginAttempt ?w1"
  let ?w3 = "tick LoginAttempt ?w2"
  let ?x3 = "LoginRaise (Exception (ascii ''Authentication failed after 3 attempts for email: ''
               @ email_str rejected_login_env))"
  have a1: "login_attempt rejected_login_env 1 world0 = (LoginContinue, ?w1)"
    by (simp add: login_attempt_def retry_or_fail_def max_login_attempts_def check_stop_def
        rejected_login_env_def quiet_browser_def)
  have a2: "login_attempt rejected_login_env 2 ?w1 = (LoginContinue, ?w2)"
    by (simp add: login_attempt_def retry_or_fail_def max_login_attempts_def check_stop_def
        rejected_login_env_def quiet_browser_def)
  have a3: "login_attempt rejected_login_env 3 ?w2 = (?x3, ?w3)"
    by (simp add: login_attempt_def retry_or_fail_def max_login_attempts_def check_stop_def
        rejected_login_env_def quiet_browser_def)
  from login_exhausted_aborts [OF a1 a2 a3] show ?thesis
    by auto
qed

subsection \<open>A stop observed while an item is processed\<close>

text \<open>
  No step of \<^verbatim>\<open>_process_all_lotteries\<close> that returns normally writes the status
  interrupted: the one place that appends it (bot.py 2219-2223) re-raises. So no outcome
  of \<^verbatim>\<open>lottery_begin\<close> holds an interrupted entry, and an outcome whose final status is
  interrupted has no entry at all.
\<close>

lemma process_open_item_uninterrupted:
  "process_open_item env sel n st w = (x, w') \<Longrightarrow> x = ItemNext st' \<or> x = ItemBreak st'
   \<Longrightarrow> uninterrupted st \<Longrightarrow> uninterrupted st'"
  using status_literals_distinct
  by (auto simp: process_open_item_def Let_def next_lottery_def append_result_def
      restart_after_reload_def uninterrupted_def
      split: prod.splits sum.splits entry_outcome.splits bool.splits if_splits)

lemma process_item_uninterrupted:
  "process_item env sel st w = (x, w') \<Longrightarrow> x = ItemNext st' \<or> x = ItemBreak st'
   \<Longrightarrow> uninterrupted st \<Longrightarrow> uninterrupted st'"
proof -
  assume pi: "process_item env sel st w = (x, w')" and x: "x = ItemNext st' \<or> x = ItemBreak st'"
    and u: "uninterrupted st"
  have u1: "uninterrupted (st\<lparr>checked_count := checked_count st + 1\<rparr>)"
    using u by (simp add: uninterrupted_def)
  show ?thesis
    using pi x u status_literals_distinct process_open_item_uninterrupted [OF _ x u1]
    by (auto simp: process_item_def Let_def next_lottery_def append_result_def
        uninterrupted_def
        split: prod.splits sum.splits if_splits)
qed

lemma items_loop_uninterrupted:
  "items_loop env sel st w = (Inr st', w') \<Longrightarrow> uninterrupted st \<Longrightarrow> uninterrupted st'"
proof (induction env sel st w rule: items_loop.induct)
  case (1 env sel st w)
  show ?case
  proof (cases "lottery_index st < length sel")
    case False
    with "1.prems" show ?thesis
      by (simp add: items_loop.simps)
  next
    case True
    obtain x w1 where pi: "process_item env sel st w = (x, w1)"
      by (cases "process_item env sel st w")
    show ?thesis
    proof (cases x)
      case (ItemNext st1)
      with pi True "1.prems" have run: "items_loop env sel st1 w1 = (Inr st', w')"
        by (simp add: items_loop.simps)
      from process_item_uninterrupted [OF pi _ "1.prems"(2)] ItemNext have "uninterrupted st1"
        by blast
      from "1.IH" [OF True pi [symmetric] ItemNext run this] show ?thesis .
    next
      case (ItemBreak st1)
      with pi True "1.prems" have "st' = st1"
        by (simp add: items_loop.simps)
      with process_item_uninterrupted [OF pi _ "1.prems"(2)] ItemBreak show ?thesis
        by blast
    next
      case (ItemRaise e)
      with pi True "1.prems" show ?thesis
        by (simp add: items_loop.simps)
    qed
  qed
qed

lemma mark_reopened_status:
  "set (map status (mark_reopened n rs)) \<subseteq> insert st_failure (set (map status rs))"
  by (induction rs) auto

lemma mark_final_open_status:
  "set (map status (mark_final_open n rs)) \<subseteq> insert st_failure (set (map status rs))"
  by (induction rs) auto

lemma failure_not_interrupted: "st_failure \<noteq> st_interrupted"
  by (simp add: st_failure_def st_interrupted_def)

lemma success_not_interrupted: "st_success \<noteq> st_interrupted"
  by (simp add: st_success_def st_interrupted_def)

lemma reverify_open_uninterrupted:
  "reverify_open env sel b st w = (Inr (b', st'), w') \<Longrightarrow> uninterrupted st \<Longrightarrow> uninterrupted st'"
proof (induction env sel b st w rule: reverify_open.induct)
  case (1 env b st w)
  then show ?case by simp
next
  case (2 env n rest b st w)
  have u: "uninterrupted (st\<lparr>completed_lotteries := completed_lotteries st - {n},
      lottery_results := mark_reopened n (lottery_results st)\<rparr>)"
    using "2.prems"(2) mark_reopened_status [of n "lottery_results st"] failure_not_interrupted
    by (auto simp: uninterrupted_def)
  from "2.prems" "2.IH" u show ?case
    by (auto split: prod.splits sum.splits if_splits)
qed

lemma final_verification_uninterrupted:
  "final_verification env sel b st w = (Inr (b', st'), w') \<Longrightarrow> uninterrupted st \<Longrightarrow> uninterrupted st'"
proof (induction env sel b st w rule: final_verification.induct)
  case (1 env b st w)
  then show ?case by simp
next
  case (2 env n rest b st w)
  have u: "uninterrupted (st\<lparr>completed_lotteries :=
                             (if n \<in> completed_lotteries st
                              then completed_lotteries st - {n}
                              else completed_lotteries st),
      lottery_results := mark_final_open n (lottery_results st)\<rparr>)"
    using "2.prems"(2) mark_final_open_status [of n "lottery_results st"] failure_not_interrupted
    by (auto simp: uninterrupted_def)
  from "2.prems" "2.IH" u show ?case
    by (auto split: prod.splits sum.splits if_splits)
qed

lemma completed_check_uninterrupted:
  "completed_check env sel st w = (Inr x, w')
   \<Longrightarrow> x = ContinueA st' \<or> x = BreakA st' \<or> x = Proceed st'
   \<Longrightarrow> uninterrupted st \<Longrightarrow> uninterrupted st'"
  using success_not_interrupted
  by (auto simp: completed_check_def Let_def uninterrupted_def
      dest!: reverify_open_uninterrupted
      split: prod.splits sum.splits if_splits)

lemma spec_final_status_uninterrupted:
  "st_interrupted \<notin> set statuses \<Longrightarrow> spec_final_status statuses \<noteq> st_interrupted"
  using failure_not_interrupted success_not_interrupted
  by (auto simp: spec_final_status_def)

lemma final_status_block_uninterrupted:
  assumes "final_status_block env sel st w = (Inr x, w')"
      and "x = Continue st' \<or> x = Break st'"
      and "uninterrupted st"
  shows "uninterrupted st'"
proof -
  obtain fs fm where d: "determine_final_status (lottery_results st) = (fs, fm)"
    by (cases "determine_final_status (lottery_results st)")
  with determine_final_status_spec [of "lottery_results st"]
  have "fs = spec_final_status (map status (lottery_results st))"
    by simp
  with spec_final_status_uninterrupted assms(3)
  have u1: "uninterrupted (st\<lparr>final_status_v := fs, final_message := fm\<rparr>)"
    by (simp add: uninterrupted_def)
  show ?thesis
    using assms(1,2) d u1 failure_not_interrupted
    by (auto simp: final_status_block_def Let_def uninterrupted_def
        dest!: final_verification_uninterrupted
        split: prod.splits sum.splits if_splits)
qed

lemma after_pass_uninterrupted:
  assumes "after_pass env sel st w = (Inr x, w')"
      and "x = Continue st' \<or> x = Break st'"
      and "uninterrupted st"
  shows "uninterrupted st'"
  using assms
  by (auto simp: after_pass_def
      dest: completed_check_uninterrupted final_status_block_uninterrupted
      split: prod.splits sum.splits block_exit.splits if_splits)

lemma one_pass_uninterrupted:
  assumes "one_pass env sel st w = (Inr x, w')"
      and "x = Continue st' \<or> x = Break st'"
      and "uninterrupted st"
  shows "uninterrupted st'"
proof -
  let ?st0 = "st\<lparr>reload_occurred := False, lottery_index := 0, checked_count := 0\<rparr>"
  from assms(1) obtain w3 st1 w4 where
    il: "items_loop env sel ?st0 w3 = (Inr st1, w4)" and
    ap: "after_pass env sel st1 w4 = (Inr x, w')"
    by (auto simp: one_pass_def Let_def split: prod.splits sum.splits)
  have "uninterrupted ?st0"
    using assms(3) by (simp add: uninterrupted_def)
  from after_pass_uninterrupted [OF ap assms(2) items_loop_uninterrupted [OF il this]]
  show ?thesis .
qed

lemma retry_loop_uninterrupted:
  "retry_loop env sel st w = (Inr st', w') \<Longrightarrow> uninterrupted st \<Longrightarrow> uninterrupted st'"
proof (induction env sel st w rule: retry_loop.induct)
  case (1 env sel st w)
  show ?case
  proof (cases "retry_attempt st < max_retry_attempts")
    case False
    with "1.prems" show ?thesis
      by (simp add: retry_loop.simps)
  next
    case True
    obtain x w1 where op: "one_pass env sel st w = (x, w1)"
      by (cases "one_pass env sel st w")
    show ?thesis
    proof (cases x)
      case (Inl e)
      with op True "1.prems" show ?thesis
        by (simp add: retry_loop.simps)
    next
      case (Inr y)
      show ?thesis
      proof (cases y)
        case (Continue st1)
        with op True Inr "1.prems" have run: "retry_loop env sel st1 w1 = (Inr st', w')"
          by (simp add: retry_loop.simps)
        from one_pass_uninterrupted [OF _ _ "1.prems"(2)] op Inr Continue
        have "uninterrupted st1"
          by blast
        from "1.IH" [OF True op [symmetric] Inr Continue run this] show ?thesis .
      next
        case (Break st1)
        with op True Inr "1.prems" have "st' = st1"
          by (simp add: retry_loop.simps)
        with one_pass_uninterrupted [OF _ _ "1.prems"(2)] op Inr Break show ?thesis
          by blast
      qed
    qed
  qed
qed

lemma process_all_lotteries_uninterrupted:
  assumes "process_all_lotteries env selected w = (Inr out, w')"
  shows "st_interrupted \<notin> set (map status (results out)) \<and> final_status out \<noteq> st_interrupted"
proof -
  from assms obtain st where
      rl: "retry_loop env (effective_selection selected) initial_state w = (Inr st, w')"
      and out: "out = \<lparr> results = lottery_results st, final_status = final_status_v st,
                 message = final_message st \<rparr>"
    by (auto simp: process_all_lotteries_def split: prod.splits sum.splits)
  have "uninterrupted initial_state"
    using failure_not_interrupted by (simp add: uninterrupted_def initial_state_def)
  from retry_loop_uninterrupted [OF rl this] out show ?thesis
    by (simp add: uninterrupted_def)
qed

lemma lottery_begin_interrupted:
  "st_interrupted \<notin> set (map status (results (fst (lottery_begin env selected w))))
   \<and> (final_status (fst (lottery_begin env selected w)) = st_interrupted
        \<longrightarrow> results (fst (lottery_begin env selected w)) = [])"
proof (cases "lottery_begin_body env selected w")
  case (Pair x w1)
  show ?thesis
  proof (cases x)
    case (Inl e)
    with Pair show ?thesis
      by (cases e) (simp_all add: lottery_begin_def)
  next
    case (Inr out)
    with Pair obtain w0 where "process_all_lotteries env (Some selected) w0 = (Inr out, w1)"
      by (auto simp: lottery_begin_body_def split: prod.splits sum.splits if_splits)
    from process_all_lotteries_uninterrupted [OF this] Pair Inr show ?thesis
      by (simp add: lottery_begin_def)
  qed
qed

text \<open>
  Claim C3, on the code: a stop is observed while item 2 of the selection 1, 2, 3 is being
  submitted. \<^verbatim>\<open>_process_all_lotteries\<close> appends the interrupted entry to its local list and
  re-raises (bot.py 2217-2224); \<^verbatim>\<open>lottery_begin\<close> catches the stop and returns the final
  status interrupted with an empty result list (1684-1691). Item 3 is not probed.
\<close>

theorem interrupted_batch_returns_no_results:
  "fst (lottery_begin interrupted_env [1, 2, 3] world0) =
     \<lparr> results = [], final_status = st_interrupted, message = msg_stopped_by_user \<rparr>
   \<and> snd (lottery_begin interrupted_env [1, 2, 3] world0) StopCheck = 12
   \<and> snd (lottery_begin interrupted_env [1, 2, 3] world0) LotteryStatus = 2
   \<and> snd (lottery_begin interrupted_env [1, 2, 3] world0) LotteryEntry = 1"
  by (simp add: literal_defs world_defs handler_defs orch_defs begin_defs quiet_browser_def
      interrupted_env_def check_stops_numeral wait_for_reload_numeral)

subsection \<open>The reload loop after the login\<close>

text \<open>
  Claim C5, on the code: with a pop04 that keeps its exception message, the handler
  \<^verbatim>\<open>_check_and_handle_pop_exceptions\<close>, called with the bound 5 as everywhere in
  \<^verbatim>\<open>bot.py\<close>, reloads the page five times, while the reload loop of \<^verbatim>\<open>lottery_begin\<close>
  (bot.py 1371-1622) reloads it six times, its bound being the constant 6 of bot.py 1372.
\<close>

theorem begin_reloads_six_times:
  "snd (check_and_handle_pop_exceptions persistent_overlay_env 5 world0) DriverRefresh = 5
   \<and> snd (begin_pop04_loop persistent_overlay_env begin_max_reload_attempts 0 False world0)
       DriverRefresh = 6
   \<and> snd (lottery_begin persistent_overlay_env [1] world0) DriverRefresh = 6"
  by (simp add: literal_defs world_defs handler_defs orch_defs begin_defs quiet_browser_def
      persistent_overlay_env_def check_stops_numeral wait_for_reload_numeral)

end
